theory Spec2Isabelle
  imports Complex_Main
begin

section \<open>Python strings\<close>

text \<open>
  A Python \<open>str\<close> is a sequence of code points. The model uses \<^typ>\<open>string\<close>, whose
  characters are the code points below 256 (Latin-1); the character classes of
  \<open>str.isdigit\<close> and \<open>str.isspace\<close> are the Unicode ones restricted to that range.
\<close>

definition isdigit_char :: "char \<Rightarrow> bool" where
  \<comment> \<open>\<open>c.isdigit()\<close>: the decimal digits 0-9 and the superscripts U+00B2, U+00B3, U+00B9.\<close>
  "isdigit_char c =
     (let n = (of_char c :: nat) in (48 \<le> n \<and> n \<le> 57) \<or> n = 178 \<or> n = 179 \<or> n = 185)"

definition isspace_char :: "char \<Rightarrow> bool" where
  \<comment> \<open>\<open>c.isspace()\<close>: U+0009..U+000D, U+001C..U+001F, U+0020, U+0085, U+00A0.\<close>
  "isspace_char c =
     (let n = (of_char c :: nat) in
        (9 \<le> n \<and> n \<le> 13) \<or> (28 \<le> n \<and> n \<le> 32) \<or> n = 133 \<or> n = 160)"

definition isdigit :: "string \<Rightarrow> bool" where
  \<comment> \<open>\<open>s.isdigit()\<close>: every character is a digit and there is at least one character.\<close>
  "isdigit s = (s \<noteq> [] \<and> list_all isdigit_char s)"

definition startswith :: "string \<Rightarrow> string \<Rightarrow> bool" where
  \<comment> \<open>\<open>s.startswith(p)\<close>\<close>
  "startswith s p = (take (length p) s = p)"

fun split :: "string \<Rightarrow> char \<Rightarrow> string list" where
  \<comment> \<open>\<open>s.split(sep)\<close> for a separator of one character: every occurrence of the
      separator ends a segment, so the result has one segment more than \<open>s\<close> has
      separators, and \<open>''''.split(sep)\<close> is \<open>['''']\<close>.\<close>
  "split [] sep = [[]]"
| "split (c # cs) sep =
     (if c = sep then [] # split cs sep
      else (c # hd (split cs sep)) # tl (split cs sep))"

definition strip :: "string \<Rightarrow> string" where
  \<comment> \<open>\<open>s.strip()\<close>: leading and trailing whitespace removed.\<close>
  "strip s = rev (dropWhile isspace_char (rev (dropWhile isspace_char s)))"

fun join :: "char \<Rightarrow> string list \<Rightarrow> string" where
  \<comment> \<open>\<open>sep.join(xs)\<close>, the inverse of \<open>split\<close>; used only to state facts about \<open>split\<close>.\<close>
  "join sep [] = []"
| "join sep [x] = x"
| "join sep (x # y # ys) = x @ sep # join sep (y # ys)"

fun contains :: "string \<Rightarrow> string \<Rightarrow> bool" where
  \<comment> \<open>\<open>k in s\<close> for two strings: \<open>k\<close> occurs in \<open>s\<close> as a substring.\<close>
  "contains [] k = (k = [])"
| "contains (c # cs) k = (startswith (c # cs) k \<or> contains cs k)"

section \<open>The validator\<close>

definition is_valid_cve :: "string \<Rightarrow> bool" where
  \<comment> \<open>\<open>bool(cve.startswith("CVE-") and len(cve.split("-")) == 3 and
      cve.split("-")[1].isdigit() and cve.split("-")[2].isdigit())\<close>; \<open>and\<close> evaluates its
      right operand only when the left one holds, so the two index reads are in range.\<close>
  "is_valid_cve cve =
     (if \<not> startswith cve ''CVE-'' then False
      else if length (split cve CHR ''-'') \<noteq> 3 then False
      else if \<not> isdigit (split cve CHR ''-'' ! 1) then False
      else isdigit (split cve CHR ''-'' ! 2))"

definition ascii_digit :: "char \<Rightarrow> bool" where
  \<comment> \<open>A decimal digit, 0 to 9.\<close>
  "ascii_digit c = (48 \<le> (of_char c :: nat) \<and> (of_char c :: nat) \<le> 57)"

definition decimal_run :: "string \<Rightarrow> bool" where
  \<comment> \<open>A non-empty run of decimal digits.\<close>
  "decimal_run s = (s \<noteq> [] \<and> list_all ascii_digit s)"

definition matches_cve_pattern :: "string \<Rightarrow> bool" where
  \<comment> \<open>The pattern of the specification, \<open>CVE-<digits>-<digits>\<close>: the literal prefix, the
      digits of the year, a hyphen, the digits of the sequence number. It is stated with the
      decimal digits, not with the code's character test.\<close>
  "matches_cve_pattern s =
     (\<exists>year seq. s = ''CVE-'' @ year @ ''-'' @ seq \<and> decimal_run year \<and> decimal_run seq)"

definition superscript_id :: string where
  \<comment> \<open>\<open>CVE-\<close>, U+00B2, a hyphen, U+00B9, U+00B3: superscript digits in both segments.\<close>
  "superscript_id = ''CVE-'' @ [CHR 0xB2] @ ''-'' @ [CHR 0xB9, CHR 0xB3]"

section \<open>Python floats\<close>

text \<open>
  A Python \<open>float\<close> is an IEEE-754 binary64 value. A finite one is kept as sign, integer
  significand and binary exponent, its value being \<open>(-1)^s * m * 2^e\<close>; the two zeros
  differ in the sign only. Arithmetic rounds the exact result to the nearest value with a
  53-bit significand, ties to the even significand, with gradual underflow at the
  exponent -1074 and overflow to infinity from \<open>2^1024\<close> on.
\<close>

datatype pyfloat = PyFinite bool nat int | PyInf bool | PyNaN

fun bit_length :: "nat \<Rightarrow> nat" where
  "bit_length n = (if n = 0 then 0 else Suc (bit_length (n div 2)))"

declare bit_length.simps [simp del]

definition round_shift :: "nat \<Rightarrow> nat \<Rightarrow> nat" where
  \<comment> \<open>\<open>m / 2^k\<close> rounded to the nearest integer, ties to even.\<close>
  "round_shift m k =
     (let q = m div 2 ^ k; r = 2 * (m mod 2 ^ k) in
      if r > 2 ^ k \<or> (r = 2 ^ k \<and> odd q) then q + 1 else q)"

definition float_round :: "bool \<Rightarrow> nat \<Rightarrow> int \<Rightarrow> pyfloat" where
  \<comment> \<open>The float nearest to the exact value \<open>(-1)^s * m * 2^e\<close>.\<close>
  "float_round s m e =
     (let sh = max (int (bit_length m) - 53) (- 1074 - e);
          m' = (if sh \<le> 0 then m else round_shift m (nat sh));
          e' = (if sh \<le> 0 then e else e + sh)
      in if m' \<noteq> 0 \<and> int (bit_length m') + e' > 1024 then PyInf s else PyFinite s m' e')"

fun float_mul :: "pyfloat \<Rightarrow> pyfloat \<Rightarrow> pyfloat" where
  \<comment> \<open>\<open>x * y\<close> on floats.\<close>
  "float_mul PyNaN y = PyNaN"
| "float_mul x PyNaN = PyNaN"
| "float_mul (PyInf s) (PyInf t) = PyInf (s \<noteq> t)"
| "float_mul (PyInf s) (PyFinite t n f) = (if n = 0 then PyNaN else PyInf (s \<noteq> t))"
| "float_mul (PyFinite s m e) (PyInf t) = (if m = 0 then PyNaN else PyInf (s \<noteq> t))"
| "float_mul (PyFinite s m e) (PyFinite t n f) = float_round (s \<noteq> t) (m * n) (e + f)"

definition float_is_zero :: "pyfloat \<Rightarrow> bool" where
  "float_is_zero x = (case x of PyFinite s m e \<Rightarrow> m = 0 | _ \<Rightarrow> False)"

definition float_is_finite :: "pyfloat \<Rightarrow> bool" where
  "float_is_finite x = (case x of PyFinite s m e \<Rightarrow> True | _ \<Rightarrow> False)"

definition pow2 :: "int \<Rightarrow> real" where
  \<comment> \<open>\<open>2^e\<close> for an integer exponent.\<close>
  "pow2 e = (if 0 \<le> e then 2 ^ nat e else 1 / 2 ^ nat (- e))"

definition float_value :: "pyfloat \<Rightarrow> real" where
  \<comment> \<open>The real number a finite float stands for (0 for the others).\<close>
  "float_value x =
     (case x of
        PyFinite s m e \<Rightarrow> (if s then - 1 else 1) * real m * pow2 e
      | _ \<Rightarrow> 0)"

subsection \<open>Fixed-point formatting\<close>

definition digit_char :: "nat \<Rightarrow> char" where
  "digit_char d = char_of (48 + d)"

fun decimal :: "nat \<Rightarrow> string" where
  \<comment> \<open>\<open>str(n)\<close> for a natural number.\<close>
  "decimal n = (if n < 10 then [digit_char n] else decimal (n div 10) @ [digit_char (n mod 10)])"

declare decimal.simps [simp del]

definition zfill :: "nat \<Rightarrow> string \<Rightarrow> string" where
  "zfill n s = replicate (n - length s) CHR ''0'' @ s"

definition scaled_round :: "nat \<Rightarrow> nat \<Rightarrow> int \<Rightarrow> nat" where
  \<comment> \<open>\<open>m * 2^e * 10^n\<close> rounded to the nearest integer, ties to even.\<close>
  "scaled_round n m e =
     (if 0 \<le> e then m * 2 ^ nat e * 10 ^ n else round_shift (m * 10 ^ n) (nat (- e)))"

definition format_f :: "nat \<Rightarrow> pyfloat \<Rightarrow> string" where
  \<comment> \<open>\<open>format(x, ".nf")\<close>: the exact value of \<open>x\<close> correctly rounded to \<open>n\<close> digits
      after the point, with the sign of \<open>x\<close>.\<close>
  "format_f n x =
     (case x of
        PyNaN \<Rightarrow> ''nan''
      | PyInf s \<Rightarrow> (if s then ''-inf'' else ''inf'')
      | PyFinite s m e \<Rightarrow>
          (let q = scaled_round n m e in
           (if s then ''-'' else '''') @ decimal (q div 10 ^ n) @
           (if n = 0 then '''' else ''.'' @ zfill n (decimal (q mod 10 ^ n)))))"

definition read_decimal :: "string \<Rightarrow> nat" where
  \<comment> \<open>The number a string of ASCII digits denotes.\<close>
  "read_decimal s = foldl (\<lambda>a c. 10 * a + (of_char c - 48)) 0 s"

definition formatted_to :: "nat \<Rightarrow> real \<Rightarrow> string \<Rightarrow> bool" where
  \<comment> \<open>The specification's "formatted to \<open>n\<close> decimal places": an optional minus sign, an
      integer part, a point and exactly \<open>n\<close> fraction digits, denoting a multiple of
      \<open>10^-n\<close> nearest to the value.\<close>
  "formatted_to n v txt =
     (\<exists>sg ip fp. txt = sg @ ip @ ''.'' @ fp \<and>
        ((sg = ''-'' \<and> v \<le> 0) \<or> (sg = '''' \<and> 0 \<le> v)) \<and>
        ip \<noteq> [] \<and> length fp = n \<and> list_all ascii_digit (ip @ fp) \<and>
        \<bar>real (read_decimal (ip @ fp)) / 10 ^ n - \<bar>v\<bar>\<bar> \<le> 1 / (2 * 10 ^ n))"

section \<open>Python values read from JSON\<close>

text \<open>
  \<open>response.json()\<close> returns \<open>None\<close>, a \<open>bool\<close>, an \<open>int\<close>, a \<open>float\<close>, a \<open>str\<close>, a \<open>list\<close>
  or a \<open>dict\<close> with string keys. The operations below are the ones \<open>calculate_epss\<close>
  applies to such a value; each raises as Python does.
\<close>

datatype json =
    JNull | JBool bool | JInt int | JFloat pyfloat | JStr string
  | JList "json list" | JDict "(string \<times> json) list"

datatype py_error = KeyError | ValueError | IndexError | TypeError | OverflowError

definition truthy :: "json \<Rightarrow> bool" where
  \<comment> \<open>\<open>bool(v)\<close>: \<open>None\<close>, \<open>False\<close>, zero and the empty string, list and dict are false.\<close>
  "truthy v =
     (case v of
        JNull \<Rightarrow> False
      | JBool b \<Rightarrow> b
      | JInt i \<Rightarrow> i \<noteq> 0
      | JFloat x \<Rightarrow> \<not> float_is_zero x
      | JStr s \<Rightarrow> s \<noteq> []
      | JList xs \<Rightarrow> xs \<noteq> []
      | JDict kvs \<Rightarrow> kvs \<noteq> [])"

definition py_in :: "string \<Rightarrow> json \<Rightarrow> py_error + bool" where
  \<comment> \<open>\<open>k in v\<close> for a string \<open>k\<close>: a key of a dict, an element of a list, a substring of a
      string; \<open>TypeError\<close> on a value that is not a container.\<close>
  "py_in k v =
     (case v of
        JDict kvs \<Rightarrow> Inr (k \<in> set (map fst kvs))
      | JList xs \<Rightarrow> Inr (JStr k \<in> set xs)
      | JStr s \<Rightarrow> Inr (contains s k)
      | _ \<Rightarrow> Inl TypeError)"

definition getitem_str :: "json \<Rightarrow> string \<Rightarrow> py_error + json" where
  \<comment> \<open>\<open>v[k]\<close> for a string \<open>k\<close>: \<open>KeyError\<close> on a dict without the key, \<open>TypeError\<close> on
      every value that is not a dict.\<close>
  "getitem_str v k =
     (case v of
        JDict kvs \<Rightarrow> (case map_of kvs k of None \<Rightarrow> Inl KeyError | Some x \<Rightarrow> Inr x)
      | _ \<Rightarrow> Inl TypeError)"

definition getitem_0 :: "json \<Rightarrow> py_error + json" where
  \<comment> \<open>\<open>v[0]\<close>: the first element of a list, the first character of a string,
      \<open>IndexError\<close> when either is empty, \<open>KeyError\<close> on a dict (its keys are strings),
      \<open>TypeError\<close> otherwise.\<close>
  "getitem_0 v =
     (case v of
        JList xs \<Rightarrow> (case xs of [] \<Rightarrow> Inl IndexError | x # _ \<Rightarrow> Inr x)
      | JStr s \<Rightarrow> (case s of [] \<Rightarrow> Inl IndexError | c # _ \<Rightarrow> Inr (JStr [c]))
      | JDict kvs \<Rightarrow> Inl KeyError
      | _ \<Rightarrow> Inl TypeError)"

definition float_of_int :: "int \<Rightarrow> py_error + pyfloat" where
  \<comment> \<open>\<open>float(i)\<close> for an \<open>int\<close>: the nearest float, \<open>OverflowError\<close> when that is not finite.\<close>
  "float_of_int i =
     (case float_round (i < 0) (nat \<bar>i\<bar>) 0 of
        PyInf s \<Rightarrow> Inl OverflowError
      | x \<Rightarrow> Inr x)"

definition py_float :: "(string \<Rightarrow> pyfloat option) \<Rightarrow> json \<Rightarrow> py_error + pyfloat" where
  \<comment> \<open>\<open>float(v)\<close>. The parameter \<open>float_of_str\<close> is Python's parser of a float from a
      string, \<open>None\<close> where it raises \<open>ValueError\<close>.\<close>
  "py_float float_of_str v =
     (case v of
        JNull \<Rightarrow> Inl TypeError
      | JBool b \<Rightarrow> Inr (PyFinite False (if b then 1 else 0) 0)
      | JInt i \<Rightarrow> float_of_int i
      | JFloat x \<Rightarrow> Inr x
      | JStr s \<Rightarrow> (case float_of_str s of None \<Rightarrow> Inl ValueError | Some x \<Rightarrow> Inr x)
      | JList xs \<Rightarrow> Inl TypeError
      | JDict kvs \<Rightarrow> Inl TypeError)"

section \<open>The HTTP request\<close>

record request =
  req_url :: string
  req_params :: "(string \<times> string) list"
  req_timeout :: nat

record response =
  status_code :: nat
  http_error :: string  \<comment> \<open>\<open>str\<close> of the \<open>HTTPError\<close> that \<open>raise_for_status\<close> raises\<close>
  json_body :: "string + json"
    \<comment> \<open>\<open>response.json()\<close>: the value, or \<open>str\<close> of the \<open>JSONDecodeError\<close> (a
        \<open>RequestException\<close>) raised on a body that is not JSON\<close>

datatype get_result =
    RequestException string  \<comment> \<open>\<open>requests.get\<close> raised (connection error, timeout, ...)\<close>
  | Response response

definition raise_for_status :: "response \<Rightarrow> string + unit" where
  \<comment> \<open>Raises \<open>HTTPError\<close> on the status codes 400 to 599.\<close>
  "raise_for_status r =
     (if 400 \<le> status_code r \<and> status_code r < 600 then Inl (http_error r) else Inr ())"

section \<open>The bell curve\<close>

text \<open>
  numpy computes the curve in binary64. The model works on the values of the floats, which
  are real numbers, and takes the rounded operations as a parameter: what is proved of the
  curve is proved for every arithmetic that rounds within a relative error \<open>u\<close>. Binary64
  addition, subtraction, multiplication and division do so with \<open>u = 2^-53\<close> wherever the
  exact result is zero or lies between \<open>10^-300\<close> and \<open>10^300\<close> in magnitude, where
  neither underflow nor overflow occurs; the library's square and exponential do so with
  a \<open>u\<close> of a few units of that size. Only the values of the operations at the floats
  the computation meets matter; at any other argument an operation may be taken exact.
\<close>

record float_ops =
  fl_add :: "real \<Rightarrow> real \<Rightarrow> real"
  fl_sub :: "real \<Rightarrow> real \<Rightarrow> real"
  fl_mul :: "real \<Rightarrow> real \<Rightarrow> real"
  fl_div :: "real \<Rightarrow> real \<Rightarrow> real"
  np_square :: "real \<Rightarrow> real"  \<comment> \<open>\<open>a ** 2\<close> on an array\<close>
  np_exp :: "real \<Rightarrow> real"
  py_pow2 :: "real \<Rightarrow> real"  \<comment> \<open>\<open>a ** 2\<close> on a Python float\<close>

definition in_range :: "real \<Rightarrow> bool" where
  "in_range r = (r = 0 \<or> (1 / 10 ^ 300 \<le> \<bar>r\<bar> \<and> \<bar>r\<bar> \<le> 10 ^ 300))"

definition accurate :: "real \<Rightarrow> float_ops \<Rightarrow> bool" where
  \<comment> \<open>Every operation returns its exact result up to the relative error \<open>u\<close>.\<close>
  "accurate u ops =
     ((\<forall>a b. in_range (a + b) \<longrightarrow> \<bar>fl_add ops a b - (a + b)\<bar> \<le> u * \<bar>a + b\<bar>) \<and>
      (\<forall>a b. in_range (a - b) \<longrightarrow> \<bar>fl_sub ops a b - (a - b)\<bar> \<le> u * \<bar>a - b\<bar>) \<and>
      (\<forall>a b. in_range (a * b) \<longrightarrow> \<bar>fl_mul ops a b - a * b\<bar> \<le> u * \<bar>a * b\<bar>) \<and>
      (\<forall>a b. b \<noteq> 0 \<longrightarrow> in_range (a / b) \<longrightarrow> \<bar>fl_div ops a b - a / b\<bar> \<le> u * \<bar>a / b\<bar>) \<and>
      (\<forall>a. in_range (a * a) \<longrightarrow> \<bar>np_square ops a - a * a\<bar> \<le> u * (a * a)) \<and>
      (\<forall>a. in_range (a * a) \<longrightarrow> \<bar>py_pow2 ops a - a * a\<bar> \<le> u * (a * a)) \<and>
      (\<forall>a. \<bar>a\<bar> \<le> 700 \<longrightarrow> \<bar>np_exp ops a - exp a\<bar> \<le> u * exp a))"

definition exact_ops :: float_ops where
  \<comment> \<open>The arithmetic that does not round.\<close>
  "exact_ops =
     \<lparr>fl_add = (+), fl_sub = (-), fl_mul = (*), fl_div = (/),
      np_square = (\<lambda>a. a * a), np_exp = exp, py_pow2 = (\<lambda>a. a * a)\<rparr>"

definition rel_close :: "real \<Rightarrow> real \<Rightarrow> real \<Rightarrow> bool" where
  \<comment> \<open>\<open>a'\<close> is \<open>a\<close> up to the relative error \<open>e\<close>.\<close>
  "rel_close e a' a = (\<bar>a' - a\<bar> \<le> e * \<bar>a\<bar>)"

definition skewed_ops :: float_ops where
  \<comment> \<open>An arithmetic that rounds every result up by the relative error \<open>2^-53\<close>.\<close>
  "skewed_ops =
     \<lparr>fl_add = (\<lambda>a b. (a + b) * (1 + 1 / 2 ^ 53)), fl_sub = (\<lambda>a b. (a - b) * (1 + 1 / 2 ^ 53)),
      fl_mul = (\<lambda>a b. (a * b) * (1 + 1 / 2 ^ 53)), fl_div = (\<lambda>a b. (a / b) * (1 + 1 / 2 ^ 53)),
      np_square = (\<lambda>a. (a * a) * (1 + 1 / 2 ^ 53)), np_exp = (\<lambda>a. exp a * (1 + 1 / 2 ^ 53)),
      py_pow2 = (\<lambda>a. (a * a) * (1 + 1 / 2 ^ 53))\<rparr>"

definition tenth :: real where
  \<comment> \<open>The float that the literal \<open>0.1\<close> denotes.\<close>
  "tenth = 3602879701896397 / 36028797018963968"

definition linspace :: "float_ops \<Rightarrow> real \<Rightarrow> real \<Rightarrow> nat \<Rightarrow> real list" where
  \<comment> \<open>\<open>np.linspace(start, stop, num)\<close> as numpy computes it: the indices \<open>0 .. num-1\<close>
      times the step \<open>(stop - start) / (num - 1)\<close>, plus \<open>start\<close>, and the last sample set to
      \<open>stop\<close>. (When the step rounds to zero numpy divides each index first; with fewer
      than two samples there is no step.)\<close>
  "linspace ops start stop num =
     (let dv = num - 1;
          delta = fl_sub ops stop start;
          idx = map real [0..<num];
          y = (if 0 < dv
               then (let step = fl_div ops delta (real dv) in
                     if step = 0
                     then map (\<lambda>v. fl_mul ops (fl_div ops v (real dv)) delta) idx
                     else map (\<lambda>v. fl_mul ops v step) idx)
               else map (\<lambda>v. fl_mul ops v delta) idx);
          y = map (\<lambda>v. fl_add ops v start) y
      in if 1 < num then y[num - 1 := stop] else y)"

definition bell :: "float_ops \<Rightarrow> real \<Rightarrow> real" where
  \<comment> \<open>\<open>np.exp(-((x - 0.5) ** 2) / (2 * 0.1 ** 2))\<close> at one element \<open>x\<close>.\<close>
  "bell ops x =
     np_exp ops
       (fl_div ops (- np_square ops (fl_sub ops x 0.5)) (fl_mul ops 2 (py_pow2 ops tenth)))"

definition bell_scale :: "float_ops \<Rightarrow> real" where
  \<comment> \<open>The divisor \<open>2 * 0.1 ** 2\<close> of \<open>bell\<close>.\<close>
  "bell_scale ops = fl_mul ops 2 (py_pow2 ops tenth)"

definition bell_arg :: "float_ops \<Rightarrow> real \<Rightarrow> real" where
  \<comment> \<open>The argument of the exponential in \<open>bell\<close>.\<close>
  "bell_arg ops x = fl_div ops (- np_square ops (fl_sub ops x 0.5)) (bell_scale ops)"

record plot =
  line_x :: "real list"
  line_y :: "real list"
  line_label :: string
  vline_x :: pyfloat
  vline_label :: string
  plot_title :: string
  plot_xlabel :: string
  plot_ylabel :: string

definition plot_bell_curve :: "float_ops \<Rightarrow> pyfloat \<Rightarrow> plot" where
  \<comment> \<open>The axes are cleared first, so the drawing depends on the score only. The calls
      into the plotting library are taken to return: the model has no exception from them.\<close>
  "plot_bell_curve ops epss_score =
     (let x = linspace ops 0 1 500;
          y = map (bell ops) x
      in \<lparr>line_x = x, line_y = y, line_label = ''Bell Curve'',
          vline_x = epss_score,
          vline_label = ''EPSS Score: '' @ format_f 4 epss_score,
          plot_title = ''EPSS Score Distribution'',
          plot_xlabel = ''Score'', plot_ylabel = ''Density''\<rparr>)"

section \<open>The viewer\<close>

record viewer =
  cve_input :: string  \<comment> \<open>the text of the input field\<close>
  cve_list :: "string list"  \<comment> \<open>the items of the list widget\<close>
  selected :: "nat option"  \<comment> \<open>the row selected in the list widget\<close>
  epss_score_label :: string  \<comment> \<open>the text of the label\<close>
  ax :: "plot option"  \<comment> \<open>what the axes show; \<open>None\<close> before the first drawing\<close>
  sent :: "request list"  \<comment> \<open>the calls of \<open>requests.get\<close> so far\<close>

definition API_URL :: string where
  "API_URL = ''https://api.first.org/data/v1/epss''"

definition init_ui :: viewer where
  "init_ui = \<lparr>cve_input = '''', cve_list = [], selected = None,
              epss_score_label = ''EPSS Score: X    Percentile: XX'', ax = None, sent = []\<rparr>"

definition add_cve :: "viewer \<Rightarrow> viewer" where
  "add_cve s =
     (let cve_text = strip (cve_input s) in
      if is_valid_cve cve_text
      then s\<lparr>cve_list := cve_list s @ [cve_text], cve_input := ''''\<rparr>
      else s\<lparr>epss_score_label := ''Invalid CVE format. Please try again.''\<rparr>)"

definition fetch_epss_data ::
  "(request \<Rightarrow> get_result) \<Rightarrow> string \<Rightarrow> string \<Rightarrow> viewer \<Rightarrow> json \<times> viewer" where
  \<comment> \<open>The parameter \<open>net\<close> is the network: what \<open>requests.get\<close> does with a request. The
      three statements of the \<open>try\<close> block raise a \<open>RequestException\<close> or go on; the handler
      writes the label and returns \<open>None\<close>, which is \<open>JNull\<close>.\<close>
  "fetch_epss_data net cve query_date s =
     (let params = [(''cve'', cve), (''date'', query_date),
                    (''envelope'', ''true''), (''pretty'', ''true'')];
          rq = \<lparr>req_url = API_URL, req_params = params, req_timeout = 10\<rparr>;
          s1 = s\<lparr>sent := sent s @ [rq]\<rparr>;
          failed = (\<lambda>e. (JNull, s1\<lparr>epss_score_label := ''Error fetching data: '' @ e\<rparr>))
      in case net rq of
           RequestException e \<Rightarrow> failed e
         | Response r \<Rightarrow>
             (case raise_for_status r of
                Inl e \<Rightarrow> failed e
              | Inr _ \<Rightarrow>
                  (case json_body r of
                     Inl e \<Rightarrow> failed e
                   | Inr v \<Rightarrow> (v, s1))))"

definition selectedItems :: "viewer \<Rightarrow> string list" where
  "selectedItems s =
     (case selected s of
        None \<Rightarrow> []
      | Some i \<Rightarrow> (if i < length (cve_list s) then [cve_list s ! i] else []))"

definition no_data :: "json \<Rightarrow> py_error + bool" where
  \<comment> \<open>\<open>not result or "data" not in result or not result["data"]\<close>, left to right, each
      operand evaluated only when the ones before it are false.\<close>
  "no_data result =
     (if \<not> truthy result then Inr True
      else case py_in ''data'' result of
             Inl e \<Rightarrow> Inl e
           | Inr False \<Rightarrow> Inr True
           | Inr True \<Rightarrow>
               (case getitem_str result ''data'' of
                  Inl e \<Rightarrow> Inl e
                | Inr d \<Rightarrow> Inr (\<not> truthy d)))"

definition read_field ::
  "(string \<Rightarrow> pyfloat option) \<Rightarrow> json \<Rightarrow> string \<Rightarrow> py_error + pyfloat" where
  \<comment> \<open>\<open>float(result["data"][0][k])\<close>\<close>
  "read_field float_of_str v k =
     (case getitem_str v ''data'' of
        Inl e \<Rightarrow> Inl e
      | Inr d \<Rightarrow>
          (case getitem_0 d of
             Inl e \<Rightarrow> Inl e
           | Inr x \<Rightarrow>
               (case getitem_str x k of
                  Inl e \<Rightarrow> Inl e
                | Inr f \<Rightarrow> py_float float_of_str f)))"

datatype outcome = Returned | Raised py_error

definition show_result ::
  "(string \<Rightarrow> pyfloat option) \<Rightarrow> float_ops \<Rightarrow> json \<Rightarrow> viewer \<Rightarrow> outcome \<times> viewer" where
  \<comment> \<open>The \<open>try\<close> statement of \<open>calculate_epss\<close>: the handler takes \<open>KeyError\<close>,
      \<open>ValueError\<close> and \<open>IndexError\<close>; any other exception leaves the function.\<close>
  "show_result float_of_str ops v s =
     (let handler = (\<lambda>e. if e = KeyError \<or> e = ValueError \<or> e = IndexError
                          then (Returned, s\<lparr>epss_score_label := ''Error processing API response.''\<rparr>)
                          else (Raised e, s))
      in case read_field float_of_str v ''epss'' of
           Inl e \<Rightarrow> handler e
         | Inr epss_score \<Rightarrow>
             (case read_field float_of_str v ''percentile'' of
                Inl e \<Rightarrow> handler e
              | Inr p \<Rightarrow>
                  (let percentile = float_mul p (PyFinite False 100 0) in
                   (Returned,
                    s\<lparr>epss_score_label :=
                        ''EPSS Score: '' @ format_f 4 epss_score @
                        ''    Percentile: '' @ format_f 2 percentile,
                      ax := Some (plot_bell_curve ops epss_score)\<rparr>))))"

definition calculate_epss ::
  "(string \<Rightarrow> pyfloat option) \<Rightarrow> float_ops \<Rightarrow> string \<Rightarrow> (request \<Rightarrow> get_result) \<Rightarrow>
     viewer \<Rightarrow> outcome \<times> viewer" where
  \<comment> \<open>\<open>ops\<close> is the arithmetic of the curve, \<open>today\<close> is what \<open>get_current_date()\<close> returns. An exception that no handler takes
      ends the call with the viewer as it is then.\<close>
  "calculate_epss float_of_str ops today net s =
     (case selectedItems s of
        [] \<Rightarrow> (Returned, s\<lparr>epss_score_label := ''Please select a CVE from the list.''\<rparr>)
      | item # _ \<Rightarrow>
          (let cve_id = item;
               query_date = today;
               (result, s1) = fetch_epss_data net cve_id query_date s
           in case no_data result of
                Inl e \<Rightarrow> (Raised e, s1)
              | Inr True \<Rightarrow>
                  (Returned,
                   s1\<lparr>epss_score_label := ''No data available or invalid API response.''\<rparr>)
              | Inr False \<Rightarrow> show_result float_of_str ops result s1))"

subsection \<open>The events of the window\<close>

datatype event =
    TypeText string  \<comment> \<open>the user edits the input field\<close>
  | SelectRow "nat option"  \<comment> \<open>the user selects a row of the list, or none\<close>
  | ClickAdd
  | ClickCalculate string "request \<Rightarrow> get_result"
      \<comment> \<open>with the date of the day and the network's behaviour at that moment\<close>

definition handle ::
  "(string \<Rightarrow> pyfloat option) \<Rightarrow> float_ops \<Rightarrow> event \<Rightarrow> viewer \<Rightarrow> viewer" where
  "handle float_of_str ops ev s =
     (case ev of
        TypeText t \<Rightarrow> s\<lparr>cve_input := t\<rparr>
      | SelectRow r \<Rightarrow> s\<lparr>selected := r\<rparr>
      | ClickAdd \<Rightarrow> add_cve s
      | ClickCalculate today net \<Rightarrow> snd (calculate_epss float_of_str ops today net s))"

inductive reachable :: "(string \<Rightarrow> pyfloat option) \<Rightarrow> float_ops \<Rightarrow> viewer \<Rightarrow> bool"
  for float_of_str :: "string \<Rightarrow> pyfloat option" and ops :: float_ops where
  reachable_init: "reachable float_of_str ops init_ui"
| reachable_step:
    "reachable float_of_str ops s \<Longrightarrow> reachable float_of_str ops (handle float_of_str ops ev s)"

definition one_selected :: viewer where
  \<comment> \<open>The window after one identifier has been added and its row selected.\<close>
  "one_selected = init_ui\<lparr>cve_list := [''CVE-2023-1234''], selected := Some 0\<rparr>"

definition request_for :: "string \<Rightarrow> string \<Rightarrow> request" where
  \<comment> \<open>The request \<open>fetch_epss_data\<close> makes for an identifier and a date.\<close>
  "request_for cve query_date =
     \<lparr>req_url = API_URL,
      req_params = [(''cve'', cve), (''date'', query_date),
                    (''envelope'', ''true''), (''pretty'', ''true'')],
      req_timeout = 10\<rparr>"

definition ok_response :: "json \<Rightarrow> get_result" where
  \<comment> \<open>A response with status 200 and a JSON body.\<close>
  "ok_response v = Response \<lparr>status_code = 200, http_error = '''', json_body = Inr v\<rparr>"

definition score_example :: json where
  \<comment> \<open>The body \<open>{"data": [{"epss": 0.1234, "percentile": 0.5}]}\<close>: the floats nearest to
      0.1234 and to 0.5.\<close>
  "score_example =
     JDict [(''data'',
       JList [JDict [(''epss'', JFloat (PyFinite False 8891907104280307 (- 56))),
                     (''percentile'', JFloat (PyFinite False 1 (- 1)))]])]"

section \<open>Properties of the string functions\<close>

lemma split_not_Nil: "split s sep \<noteq> []"
  by (induction s) auto

lemma split_no_sep: "sep \<notin> set s \<Longrightarrow> split s sep = [s]"
  by (induction s) auto

lemma split_append_sep:
  "sep \<notin> set a \<Longrightarrow> split (a @ sep # b) sep = a # split b sep"
  by (induction a) auto

lemma join_split: "join sep (split s sep) = s"
proof (induction s)
  case Nil
  show ?case by simp
next
  case (Cons c cs)
  obtain w ws where w: "split cs sep = w # ws"
    using split_not_Nil [of cs sep] by (cases "split cs sep") auto
  with Cons show ?case by (cases ws) auto
qed

lemma split_segments_no_sep: "x \<in> set (split s sep) \<Longrightarrow> sep \<notin> set x"
proof (induction s arbitrary: x)
  case Nil
  then show ?case by simp
next
  case (Cons c cs)
  obtain w ws where w: "split cs sep = w # ws"
    using split_not_Nil [of cs sep] by (cases "split cs sep") auto
  with Cons show ?case by (auto split: if_splits)
qed

section \<open>The validator and the pattern\<close>

lemma dash_not_digit: "\<not> isdigit_char CHR ''-''"
  by (simp add: isdigit_char_def)

lemma isdigit_no_dash: "isdigit s \<Longrightarrow> CHR ''-'' \<notin> set s"
  using dash_not_digit by (auto simp: isdigit_def list_all_iff)

lemma valid_decompose:
  assumes "is_valid_cve s"
  shows "\<exists>y n. s = ''CVE-'' @ y @ ''-'' @ n \<and> isdigit y \<and> isdigit n"
proof -
  from assms have pre: "startswith s ''CVE-''" and len: "length (split s CHR ''-'') = 3"
    and d1: "isdigit (split s CHR ''-'' ! 1)" and d2: "isdigit (split s CHR ''-'' ! 2)"
    by (auto simp: is_valid_cve_def split: if_splits)
  from len obtain a b c where abc: "split s CHR ''-'' = [a, b, c]"
    by (auto simp: length_Suc_conv numeral_3_eq_3)
  have s: "s = a @ CHR ''-'' # b @ CHR ''-'' # c"
    using join_split [of "CHR ''-''" s] abc by simp
  have na: "CHR ''-'' \<notin> set a"
    using split_segments_no_sep [of a s "CHR ''-''"] abc by simp
  from pre s have "startswith (a @ CHR ''-'' # b @ CHR ''-'' # c) ''CVE-''" by simp
  with na have "a = ''CVE''"
    by (cases a; cases "tl a"; cases "tl (tl a)"; cases "tl (tl (tl a))")
       (auto simp: startswith_def)
  with s d1 d2 abc show ?thesis
    by (intro exI [of _ b] exI [of _ c]) simp
qed

lemma decompose_valid:
  assumes s: "s = ''CVE-'' @ y @ ''-'' @ n" and y: "isdigit y" and n: "isdigit n"
  shows "is_valid_cve s"
proof -
  have "split s CHR ''-'' = [''CVE'', y, n]"
    using split_append_sep [of "CHR ''-''" "''CVE''" "y @ ''-'' @ n"]
      split_append_sep [of "CHR ''-''" y n] split_no_sep [of "CHR ''-''" n]
      isdigit_no_dash [OF y] isdigit_no_dash [OF n] s by simp
  with s y n show ?thesis by (simp add: is_valid_cve_def startswith_def)
qed

lemma ascii_digit_isdigit: "ascii_digit c \<Longrightarrow> isdigit_char c"
  by (simp add: ascii_digit_def isdigit_char_def)

lemma decimal_run_isdigit: "decimal_run s \<Longrightarrow> isdigit s"
  by (auto simp: decimal_run_def isdigit_def list_all_iff ascii_digit_isdigit)

text \<open>
  Every string of the specification's pattern is accepted, and among the strings of ASCII
  characters no other is.
\<close>

lemma pattern_imp_valid:
  assumes "matches_cve_pattern s"
  shows "is_valid_cve s"
proof -
  from assms obtain y n where s: "s = ''CVE-'' @ y @ ''-'' @ n"
    and "decimal_run y" and "decimal_run n"
    unfolding matches_cve_pattern_def by blast
  then show ?thesis
    by (intro decompose_valid [OF s] decimal_run_isdigit)
qed

lemma isdigit_ascii_decimal:
  assumes "isdigit s" and "list_all (\<lambda>c. (of_char c :: nat) < 128) s"
  shows "decimal_run s"
proof -
  have "ascii_digit c" if "c \<in> set s" for c
  proof -
    from that assms have "isdigit_char c" "(of_char c :: nat) < 128"
      by (auto simp: isdigit_def list_all_iff)
    then show ?thesis
      by (auto simp: isdigit_char_def ascii_digit_def Let_def)
  qed
  with assms(1) show ?thesis
    by (simp add: isdigit_def decimal_run_def list_all_iff)
qed

lemma valid_ascii_imp_pattern:
  assumes "is_valid_cve s" and "list_all (\<lambda>c. (of_char c :: nat) < 128) s"
  shows "matches_cve_pattern s"
proof -
  from valid_decompose [OF assms(1)]
  obtain y n where s: "s = ''CVE-'' @ y @ ''-'' @ n" and y: "isdigit y" and n: "isdigit n"
    by blast
  from assms(2) s have "list_all (\<lambda>c. (of_char c :: nat) < 128) y"
    "list_all (\<lambda>c. (of_char c :: nat) < 128) n" by simp_all
  with y n have "decimal_run y" "decimal_run n"
    by (simp_all add: isdigit_ascii_decimal)
  with s show ?thesis unfolding matches_cve_pattern_def by blast
qed

text \<open>
  C1. The claim asks that \<open>is_valid_cve\<close> is true for exactly the strings
  \<open>CVE-<digits>-<digits>\<close>. The code tests the segments with \<open>str.isdigit\<close>, which also
  accepts characters that are no decimal digits, the superscripts among them. The theorem
  evaluates the code on \<open>CVE-\<close>, superscript two, a hyphen, superscript one and superscript
  three: it is accepted, and it is not of the pattern.
\<close>

theorem superscript_digits_accepted:
  "is_valid_cve superscript_id \<and> \<not> matches_cve_pattern superscript_id"
proof
  show "is_valid_cve superscript_id"
    by (simp add: superscript_id_def is_valid_cve_def startswith_def isdigit_def
        isdigit_char_def)
  show "\<not> matches_cve_pattern superscript_id"
  proof
    assume "matches_cve_pattern superscript_id"
    then obtain y n where s: "superscript_id = ''CVE-'' @ y @ ''-'' @ n"
      and y: "decimal_run y"
      by (auto simp: matches_cve_pattern_def)
    from y obtain a y' where a: "y = a # y'" "ascii_digit a"
      by (cases y) (auto simp: decimal_run_def)
    with s have "a = CHR 0xB2" by (simp add: superscript_id_def)
    with a(2) show False by (simp add: ascii_digit_def)
  qed
qed

section \<open>Stripping and the list of identifiers\<close>

lemma digit_not_space: "isdigit_char c \<Longrightarrow> \<not> isspace_char c"
  by (auto simp: isdigit_char_def isspace_char_def Let_def)

lemma valid_ends:
  assumes "is_valid_cve v"
  shows "v \<noteq> [] \<and> hd v = CHR ''C'' \<and> isdigit_char (last v)"
proof -
  from valid_decompose [OF assms]
  obtain y n where v: "v = ''CVE-'' @ y @ ''-'' @ n" and n: "isdigit n"
    by blast
  from n have "n \<noteq> []" "isdigit_char (last n)"
    by (auto simp: isdigit_def list_all_iff)
  with v show ?thesis by simp
qed

lemma C_not_space: "\<not> isspace_char CHR ''C''"
  by (simp add: isspace_char_def)

lemma strip_padded:
  assumes v: "v \<noteq> []" "\<not> isspace_char (hd v)" "\<not> isspace_char (last v)"
    and l: "list_all isspace_char l" and r: "list_all isspace_char r"
  shows "strip (l @ v @ r) = v"
proof -
  have "dropWhile isspace_char (l @ v @ r) = dropWhile isspace_char (v @ r)"
    by (rule dropWhile_append2) (use l in \<open>auto simp: list_all_iff\<close>)
  also have "\<dots> = v @ r"
    using v by (cases v) auto
  finally have 1: "dropWhile isspace_char (l @ v @ r) = v @ r" .
  have "dropWhile isspace_char (rev r @ rev v) = dropWhile isspace_char (rev v)"
    by (rule dropWhile_append2) (use r in \<open>auto simp: list_all_iff\<close>)
  also have "\<dots> = rev v"
    using v by (cases v rule: rev_cases) auto
  finally have 2: "dropWhile isspace_char (rev r @ rev v) = rev v" .
  show ?thesis by (simp add: strip_def 1 2)
qed

lemma strip_valid: "is_valid_cve v \<Longrightarrow> strip v = v"
  using strip_padded [of v "[]" "[]"] valid_ends [of v] digit_not_space C_not_space by auto

lemma padded_invalid:
  assumes l: "list_all isspace_char l" and r: "list_all isspace_char r"
    and ne: "l \<noteq> [] \<or> r \<noteq> []" and v: "v \<noteq> []"
  shows "\<not> is_valid_cve (l @ v @ r)"
proof
  assume "is_valid_cve (l @ v @ r)"
  from valid_ends [OF this] have h: "hd (l @ v @ r) = CHR ''C''"
    and d: "isdigit_char (last (l @ v @ r))" by auto
  from ne show False
  proof
    assume "l \<noteq> []"
    with h l have "isspace_char CHR ''C''" by (cases l) auto
    with C_not_space show False by simp
  next
    assume "r \<noteq> []"
    with d r have "isspace_char (last r)" "isdigit_char (last r)"
      by (auto simp: list_all_iff)
    with digit_not_space show False by blast
  qed
qed

lemma fetch_cve_list: "cve_list (snd (fetch_epss_data net c d s)) = cve_list s"
  by (simp add: fetch_epss_data_def Let_def split: get_result.splits sum.splits)

lemma show_result_cve_list: "cve_list (snd (show_result fs ops v s)) = cve_list s"
  by (simp add: show_result_def Let_def split: sum.splits)

lemma calculate_cve_list: "cve_list (snd (calculate_epss fs ops today net s)) = cve_list s"
  by (auto simp: calculate_epss_def Let_def fetch_cve_list show_result_cve_list
      split: list.splits sum.splits bool.splits prod.splits
      dest: arg_cong [where f = "\<lambda>p. cve_list (snd p)"])

lemma add_cve_valid: "list_all is_valid_cve (cve_list s) \<Longrightarrow> list_all is_valid_cve (cve_list (add_cve s))"
  by (simp add: add_cve_def Let_def)

section \<open>Adding an identifier\<close>

text \<open>
  C8, as stated, is false: an input that fails validation as typed is still added when its
  stripped form is valid.
\<close>

theorem add_cve_rejects_counterexample:
  "\<not> is_valid_cve '' CVE-2023-1234'' \<and>
   cve_list (add_cve (init_ui\<lparr>cve_input := '' CVE-2023-1234''\<rparr>)) \<noteq> cve_list init_ui"
  by (simp add: add_cve_def strip_def isspace_char_def init_ui_def is_valid_cve_def
      startswith_def isdigit_def isdigit_char_def)

text \<open>
  C8, amended. When the stripped input fails validation, \<open>add_cve\<close> changes nothing but the
  label, which shows the fixed message; when the stripped input passes validation, the
  stripped identifier is appended to the list, the input field is cleared and nothing else
  changes. An input that passes validation as typed is its own stripped form.
\<close>

theorem add_cve_effect:
  "(\<not> is_valid_cve (strip (cve_input s)) \<longrightarrow>
      add_cve s = s\<lparr>epss_score_label := ''Invalid CVE format. Please try again.''\<rparr> \<and>
      cve_list (add_cve s) = cve_list s \<and> cve_input (add_cve s) = cve_input s) \<and>
   (is_valid_cve (strip (cve_input s)) \<longrightarrow>
      add_cve s = s\<lparr>cve_list := cve_list s @ [strip (cve_input s)], cve_input := ''''\<rparr> \<and>
      epss_score_label (add_cve s) = epss_score_label s) \<and>
   (is_valid_cve (cve_input s) \<longrightarrow>
      cve_list (add_cve s) = cve_list s @ [cve_input s] \<and> cve_input (add_cve s) = '''')"
  by (auto simp: add_cve_def Let_def strip_valid)

theorem add_cve_effect_witness:
  "\<not> is_valid_cve (strip ''CVE-abc-123'') \<and>
   cve_list (add_cve (init_ui\<lparr>cve_input := ''CVE-abc-123''\<rparr>)) = [] \<and>
   epss_score_label (add_cve (init_ui\<lparr>cve_input := ''CVE-abc-123''\<rparr>)) =
     ''Invalid CVE format. Please try again.'' \<and>
   is_valid_cve (strip ''CVE-2023-1234'') \<and> is_valid_cve ''CVE-2023-1234'' \<and>
   cve_list (add_cve (init_ui\<lparr>cve_input := ''CVE-2023-1234''\<rparr>)) = [''CVE-2023-1234''] \<and>
   cve_input (add_cve (init_ui\<lparr>cve_input := ''CVE-2023-1234''\<rparr>)) = ''''"
proof -
  have a: "\<not> is_valid_cve (strip ''CVE-abc-123'')"
    by (simp add: strip_def isspace_char_def is_valid_cve_def startswith_def isdigit_def
        isdigit_char_def)
  have b: "is_valid_cve ''CVE-2023-1234''"
    by (simp add: is_valid_cve_def startswith_def isdigit_def isdigit_char_def)
  have c: "strip ''CVE-2023-1234'' = ''CVE-2023-1234''"
    by (simp add: strip_def isspace_char_def)
  show ?thesis
    using a b c add_cve_effect [of "init_ui\<lparr>cve_input := ''CVE-abc-123''\<rparr>"]
      add_cve_effect [of "init_ui\<lparr>cve_input := ''CVE-2023-1234''\<rparr>"]
    by (simp add: init_ui_def)
qed

text \<open>
  C9. \<open>add_cve\<close> strips the input before it validates: a valid identifier with whitespace
  around it is added, what is stored is the identifier without the whitespace, and the
  input as typed does not pass \<open>is_valid_cve\<close> unless there was no whitespace at all.
\<close>

theorem add_cve_strips:
  assumes "is_valid_cve v" and "list_all isspace_char l" and "list_all isspace_char r"
    and "cve_input s = l @ v @ r"
  shows "add_cve s = s\<lparr>cve_list := cve_list s @ [v], cve_input := ''''\<rparr> \<and>
         (l \<noteq> [] \<or> r \<noteq> [] \<longrightarrow> \<not> is_valid_cve (cve_input s))"
proof -
  from valid_ends [OF assms(1)] have v: "v \<noteq> []" "\<not> isspace_char (hd v)"
    "\<not> isspace_char (last v)"
    using C_not_space digit_not_space by auto
  have "strip (cve_input s) = v"
    using strip_padded [OF v assms(2,3)] assms(4) by simp
  moreover have "l \<noteq> [] \<or> r \<noteq> [] \<longrightarrow> \<not> is_valid_cve (cve_input s)"
    using padded_invalid [OF assms(2,3) _ v(1)] assms(4) by auto
  ultimately show ?thesis using assms(1) by (simp add: add_cve_def)
qed

theorem add_cve_strips_witness:
  "is_valid_cve ''CVE-2023-1234'' \<and> list_all isspace_char ''  '' \<and>
   list_all isspace_char [CHR 0x09, CHR 0x0A] \<and>
   cve_list (add_cve (init_ui\<lparr>cve_input := ''  CVE-2023-1234'' @ [CHR 0x09, CHR 0x0A]\<rparr>)) =
     [''CVE-2023-1234''] \<and>
   \<not> is_valid_cve (''  CVE-2023-1234'' @ [CHR 0x09, CHR 0x0A])"
proof -
  have a: "is_valid_cve ''CVE-2023-1234''"
    by (simp add: is_valid_cve_def startswith_def isdigit_def isdigit_char_def)
  have b: "list_all isspace_char ''  ''" "list_all isspace_char [CHR 0x09, CHR 0x0A]"
    by (simp_all add: isspace_char_def)
  show ?thesis
    using a b add_cve_strips [OF a b, of "init_ui\<lparr>cve_input := ''  CVE-2023-1234'' @ [CHR 0x09, CHR 0x0A]\<rparr>"]
    by (simp add: init_ui_def)
qed

text \<open>
  C10. In every state the window can reach, every item of the list passes \<open>is_valid_cve\<close>:
  the list starts empty, \<open>add_cve\<close> appends only a string that passed the validation, and
  no other event changes the list.
\<close>

theorem reachable_list_valid:
  assumes "reachable float_of_str ops s"
  shows "list_all is_valid_cve (cve_list s) \<and>
         (\<forall>ev. ev \<noteq> ClickAdd \<longrightarrow> cve_list (handle float_of_str ops ev s) = cve_list s)"
proof
  from assms show "list_all is_valid_cve (cve_list s)"
  proof (induction rule: reachable.induct)
    case reachable_init
    show ?case by (simp add: init_ui_def)
  next
    case (reachable_step s ev)
    then show ?case
      by (cases ev) (simp_all add: handle_def add_cve_valid calculate_cve_list)
  qed
  show "\<forall>ev. ev \<noteq> ClickAdd \<longrightarrow> cve_list (handle float_of_str ops ev s) = cve_list s"
  proof (intro allI impI)
    fix ev :: event
    assume "ev \<noteq> ClickAdd"
    then show "cve_list (handle float_of_str ops ev s) = cve_list s"
      by (cases ev) (simp_all add: handle_def calculate_cve_list)
  qed
qed

theorem reachable_list_valid_witness:
  "reachable (\<lambda>t. None) exact_ops (handle (\<lambda>t. None) exact_ops ClickAdd (handle (\<lambda>t. None) exact_ops (TypeText '' CVE-2023-1234 '') init_ui)) \<and>
   cve_list (handle (\<lambda>t. None) exact_ops ClickAdd (handle (\<lambda>t. None) exact_ops (TypeText '' CVE-2023-1234 '') init_ui)) = [''CVE-2023-1234''] \<and>
   list_all is_valid_cve [''CVE-2023-1234'']"
proof -
  let ?s = "handle (\<lambda>t. None) exact_ops ClickAdd (handle (\<lambda>t. None) exact_ops (TypeText '' CVE-2023-1234 '') init_ui)"
  have r: "reachable (\<lambda>t. None) exact_ops ?s"
    by (intro reachable_step reachable_init)
  have l: "cve_list ?s = [''CVE-2023-1234'']"
    by (simp add: handle_def add_cve_def strip_def isspace_char_def init_ui_def
        is_valid_cve_def startswith_def isdigit_def isdigit_char_def)
  show ?thesis using r l reachable_list_valid [OF r] by simp
qed

lemma show_result_sent: "sent (snd (show_result fs ops v s)) = sent s"
  by (simp add: show_result_def Let_def split: sum.splits)

text \<open>
  C7. Every call of \<open>fetch_epss_data\<close> makes exactly one call of \<open>requests.get\<close>, whatever
  the network does: to the fixed URL, with the four query parameters and the timeout of 10
  seconds. The function has no loop and no second call, so a failure is not retried.
\<close>

theorem fetch_sends_one_request:
  "sent (snd (fetch_epss_data net cve query_date s)) =
     sent s @
     [\<lparr>req_url = ''https://api.first.org/data/v1/epss'',
       req_params = [(''cve'', cve), (''date'', query_date),
                     (''envelope'', ''true''), (''pretty'', ''true'')],
       req_timeout = 10\<rparr>] \<and>
   sent (snd (calculate_epss float_of_str ops today net s)) =
     (case selectedItems s of
        [] \<Rightarrow> sent s
      | item # rest \<Rightarrow> sent (snd (fetch_epss_data net item today s)))"
proof
  show "sent (snd (fetch_epss_data net cve query_date s)) =
     sent s @
     [\<lparr>req_url = ''https://api.first.org/data/v1/epss'',
       req_params = [(''cve'', cve), (''date'', query_date),
                     (''envelope'', ''true''), (''pretty'', ''true'')],
       req_timeout = 10\<rparr>]"
    by (simp add: fetch_epss_data_def API_URL_def Let_def
        split: get_result.splits sum.splits)
  show "sent (snd (calculate_epss float_of_str ops today net s)) =
     (case selectedItems s of
        [] \<Rightarrow> sent s
      | item # rest \<Rightarrow> sent (snd (fetch_epss_data net item today s)))"
    by (auto simp: calculate_epss_def Let_def show_result_sent
        split: list.splits sum.splits bool.splits prod.splits)
qed

section \<open>What a query shows\<close>

lemmas eval_defs = calculate_epss_def selectedItems_def fetch_epss_data_def raise_for_status_def
  no_data_def truthy_def py_in_def getitem_str_def getitem_0_def show_result_def read_field_def
  py_float_def one_selected_def init_ui_def API_URL_def request_for_def ok_response_def Let_def

text \<open>
  C2. The claim asks that a transport failure leaves its own text in the label. The code
  writes that text in \<open>fetch_epss_data\<close> and returns \<open>None\<close>; \<open>calculate_epss\<close> then takes
  the branch \<open>not result\<close> and writes the no-data message over it. The theorem is the code's
  behaviour, which is not what the claim says.
\<close>

theorem transport_error_overwritten:
  assumes "selectedItems s = item # rest"
    and "net (request_for item today) = RequestException msg"
  shows "epss_score_label (snd (fetch_epss_data net item today s)) =
           ''Error fetching data: '' @ msg \<and>
         calculate_epss float_of_str ops today net s =
           (Returned, (snd (fetch_epss_data net item today s))
              \<lparr>epss_score_label := ''No data available or invalid API response.''\<rparr>)"
  using assms
  by (simp add: calculate_epss_def fetch_epss_data_def no_data_def truthy_def request_for_def
      Let_def)

theorem transport_error_overwritten_witness:
  "selectedItems one_selected = [''CVE-2023-1234''] \<and>
   epss_score_label (snd (calculate_epss (\<lambda>t. None) exact_ops ''2024-05-01''
      (\<lambda>rq. RequestException ''Read timed out.'') one_selected)) =
     ''No data available or invalid API response.''"
  using transport_error_overwritten [of one_selected "''CVE-2023-1234''" "[]"
      "\<lambda>rq. RequestException ''Read timed out.''" "''2024-05-01''" "''Read timed out.''"
      "\<lambda>t. None" exact_ops]
  by (simp add: selectedItems_def one_selected_def init_ui_def)

text \<open>
  C6. The claim asks that no failure of the parsing leaves \<open>calculate_epss\<close> as an
  exception. The handler names \<open>KeyError\<close>, \<open>ValueError\<close> and \<open>IndexError\<close>; the
  \<open>TypeError\<close> that \<open>float(None)\<close> raises is not among them. The theorem evaluates the code
  on the body \<open>{"data": [{"epss": null, "percentile": "0.5"}]}\<close>: the call ends with the
  exception and the label is the one from before the call.
\<close>

theorem null_score_raises:
  "calculate_epss float_of_str ops today
     (\<lambda>rq. ok_response (JDict [(''data'',
        JList [JDict [(''epss'', JNull), (''percentile'', JStr ''0.5'')]])]))
     one_selected =
   (Raised TypeError, one_selected\<lparr>sent := [request_for ''CVE-2023-1234'' today]\<rparr>)"
  by (simp add: eval_defs)

text \<open>
  C4. The claim asks for one typed result per response. Two of its cases are not what the
  code does: after a response with status 500 the label ends as the no-data message (the
  transport text is overwritten, as for C2), and a value that is neither a number nor a
  string, here an object, ends the call with \<open>TypeError\<close> instead of the parse-error
  message (the handler of C6).
\<close>

theorem fetch_outcomes_diverge:
  "calculate_epss float_of_str ops today
     (\<lambda>rq. Response \<lparr>status_code = 500,
        http_error = ''500 Server Error: Internal Server Error'',
        json_body = Inl ''Expecting value''\<rparr>)
     one_selected =
   (Returned, one_selected\<lparr>sent := [request_for ''CVE-2023-1234'' today],
      epss_score_label := ''No data available or invalid API response.''\<rparr>) \<and>
   calculate_epss float_of_str ops today
     (\<lambda>rq. ok_response (JDict [(''data'',
        JList [JDict [(''epss'', JDict [(''value'', JStr ''0.5'')]),
                      (''percentile'', JStr ''0.9'')]])]))
     one_selected =
   (Raised TypeError, one_selected\<lparr>sent := [request_for ''CVE-2023-1234'' today]\<rparr>)"
  by (simp add: eval_defs)

section \<open>The samples of the bell curve\<close>

lemma rel_close_trans:
  assumes "rel_close e1 b a" and "rel_close e2 c b" and "0 \<le> e2"
  shows "rel_close (e1 + e2 + e1 * e2) c a"
proof -
  from assms(1) have "\<bar>b\<bar> \<le> (1 + e1) * \<bar>a\<bar>"
    by (simp add: rel_close_def algebra_simps)
  with assms(3) have "e2 * \<bar>b\<bar> \<le> e2 * ((1 + e1) * \<bar>a\<bar>)"
    by (rule mult_left_mono [rotated])
  with assms(1,2) show ?thesis
    by (simp add: rel_close_def algebra_simps) linarith
qed

lemma rel_close_mult: "rel_close e b a \<Longrightarrow> rel_close e (k * b) (k * a)"
proof -
  assume "rel_close e b a"
  then have "\<bar>k\<bar> * \<bar>b - a\<bar> \<le> \<bar>k\<bar> * (e * \<bar>a\<bar>)"
    unfolding rel_close_def by (intro mult_left_mono) simp_all
  then show ?thesis
    by (simp add: rel_close_def abs_mult [symmetric] algebra_simps del: abs_mult)
qed

lemma rel_close_weaken: "rel_close e b a \<Longrightarrow> e \<le> e' \<Longrightarrow> rel_close e' b a"
proof -
  assume "rel_close e b a" "e \<le> e'"
  moreover from \<open>e \<le> e'\<close> have "e * \<bar>a\<bar> \<le> e' * \<bar>a\<bar>" by (intro mult_right_mono) simp_all
  ultimately show ?thesis by (simp add: rel_close_def)
qed

lemma rel_close_bounds:
  assumes "rel_close e b a" and "0 \<le> e"
  shows "(1 - e) * \<bar>a\<bar> \<le> \<bar>b\<bar>" and "\<bar>b\<bar> \<le> (1 + e) * \<bar>a\<bar>"
  using assms by (simp_all add: rel_close_def algebra_simps)

lemma in_rangeI: "1 / 10 ^ 8 \<le> \<bar>r\<bar> \<Longrightarrow> \<bar>r\<bar> \<le> 1000 \<Longrightarrow> in_range r"
  by (simp add: in_range_def)

lemma in_range_0: "in_range 0"
  by (simp add: in_range_def)

lemma in_range_close:
  assumes "rel_close e b a" and "0 \<le> e" and "e \<le> 1 / 2"
    and "a = 0 \<or> (2 / 10 ^ 8 \<le> \<bar>a\<bar> \<and> \<bar>a\<bar> \<le> 500)"
  shows "in_range b"
proof (cases "a = 0")
  case True
  with assms(1) show ?thesis by (simp add: rel_close_def in_range_0)
next
  case False
  with assms(4) have a: "2 / 10 ^ 8 \<le> \<bar>a\<bar>" "\<bar>a\<bar> \<le> 500" by auto
  from rel_close_bounds [OF assms(1,2)]
  have lo: "(1 - e) * \<bar>a\<bar> \<le> \<bar>b\<bar>" and hi: "\<bar>b\<bar> \<le> (1 + e) * \<bar>a\<bar>" .
  have "(1 / 2) * \<bar>a\<bar> \<le> (1 - e) * \<bar>a\<bar>"
    using assms(3) by (intro mult_right_mono) simp_all
  with lo a(1) have 1: "1 / 10 ^ 8 \<le> \<bar>b\<bar>" by simp
  have "(1 + e) * \<bar>a\<bar> \<le> (3 / 2) * \<bar>a\<bar>"
    using assms(3) by (intro mult_right_mono) simp_all
  with hi a(2) have 2: "\<bar>b\<bar> \<le> 1000" by simp
  from 1 2 show ?thesis by (rule in_rangeI)
qed

lemma acc_add: "accurate u ops \<Longrightarrow> in_range (a + b) \<Longrightarrow> rel_close u (fl_add ops a b) (a + b)"
  by (simp add: accurate_def rel_close_def)

lemma acc_sub: "accurate u ops \<Longrightarrow> in_range (a - b) \<Longrightarrow> rel_close u (fl_sub ops a b) (a - b)"
  by (simp add: accurate_def rel_close_def)

lemma acc_mul: "accurate u ops \<Longrightarrow> in_range (a * b) \<Longrightarrow> rel_close u (fl_mul ops a b) (a * b)"
  by (simp add: accurate_def rel_close_def)

lemma acc_div:
  "accurate u ops \<Longrightarrow> b \<noteq> 0 \<Longrightarrow> in_range (a / b) \<Longrightarrow> rel_close u (fl_div ops a b) (a / b)"
  by (simp add: accurate_def rel_close_def)

lemma acc_square: "accurate u ops \<Longrightarrow> in_range (a * a) \<Longrightarrow> rel_close u (np_square ops a) (a * a)"
  by (simp add: accurate_def rel_close_def)

lemma acc_pow2: "accurate u ops \<Longrightarrow> in_range (a * a) \<Longrightarrow> rel_close u (py_pow2 ops a) (a * a)"
  by (simp add: accurate_def rel_close_def)

lemma acc_exp: "accurate u ops \<Longrightarrow> \<bar>a\<bar> \<le> 700 \<Longrightarrow> rel_close u (np_exp ops a) (exp a)"
  by (simp add: accurate_def rel_close_def)

lemma step_close:
  assumes acc: "accurate u ops" and u0: "0 \<le> u" and u9: "u \<le> 1 / 10 ^ 9"
  shows "rel_close (3 * u) (fl_div ops (fl_sub ops 1 0) 499) (1 / 499)"
proof -
  let ?delta = "fl_sub ops 1 0"
  have d: "rel_close u ?delta 1"
    using acc_sub [OF acc, of 1 0] by (simp add: in_range_def)
  have q: "rel_close u (?delta / 499) (1 / 499)"
    using rel_close_mult [OF d, of "1 / 499"] by simp
  have "in_range (?delta / 499)"
    by (rule in_range_close [OF q u0]) (use u9 in simp_all)
  from acc_div [OF acc _ this] have "rel_close u (fl_div ops ?delta 499) (?delta / 499)"
    by simp
  from rel_close_trans [OF q this u0]
  have r: "rel_close (u + u + u * u) (fl_div ops ?delta 499) (1 / 499)" .
  have "u * u \<le> u * 1" using u0 u9 by (intro mult_left_mono) simp_all
  then show ?thesis by (intro rel_close_weaken [OF r]) simp
qed

lemma step_nonzero:
  assumes acc: "accurate u ops" and u0: "0 \<le> u" and u9: "u \<le> 1 / 10 ^ 9"
  shows "fl_div ops (fl_sub ops 1 0) 499 \<noteq> 0"
proof
  assume z: "fl_div ops (fl_sub ops 1 0) 499 = 0"
  have "0 \<le> 3 * u" using u0 by simp
  from rel_close_bounds(1) [OF step_close [OF acc u0 u9] this] z
  have "(1 - 3 * u) * (1 / 499) \<le> 0" by simp
  with u9 show False by (simp add: field_simps)
qed

lemma linspace_nth:
  assumes acc: "accurate u ops" and u0: "0 \<le> u" and u9: "u \<le> 1 / 10 ^ 9" and i: "i < 500"
  shows "linspace ops 0 1 500 ! i =
    (if i = 499 then 1
     else fl_add ops (fl_mul ops (real i) (fl_div ops (fl_sub ops 1 0) 499)) 0)"
  using step_nonzero [OF acc u0 u9] i
  by (simp add: linspace_def Let_def nth_list_update del: upt_Suc)

lemma length_linspace: "length (linspace ops a b n) = n"
  by (simp add: linspace_def Let_def)

lemma sample_close:
  assumes acc: "accurate u ops" and u0: "0 \<le> u" and u9: "u \<le> 1 / 10 ^ 9" and i: "i < 500"
  shows "rel_close (8 * u) (linspace ops 0 1 500 ! i) (real i / 499)"
proof (cases "i = 499")
  case True
  with linspace_nth [OF acc u0 u9 i] have "linspace ops 0 1 500 ! i = 1" by simp
  moreover from True have "real i / 499 = 1" by simp
  ultimately show ?thesis using u0 by (simp only: rel_close_def)
next
  case False
  let ?step = "fl_div ops (fl_sub ops 1 0) 499"
  let ?p = "fl_mul ops (real i) ?step"
  have "u * u \<le> u * (1 / 10)" using u0 u9 by (intro mult_left_mono) simp_all
  with u0 have uu: "3 * u * u \<le> u" "5 * u * u \<le> 2 * u" by simp_all
  have r: "real i = 0 \<or> (1 \<le> real i \<and> real i \<le> 499)"
    using i by (cases i) simp_all
  have rng: "real i / 499 = 0 \<or> (2 / 10 ^ 8 \<le> \<bar>real i / 499\<bar> \<and> \<bar>real i / 499\<bar> \<le> 500)"
    using r by auto
  have s: "rel_close (3 * u) (real i * ?step) (real i / 499)"
    using rel_close_mult [OF step_close [OF acc u0 u9], of "real i"] by simp
  have "in_range (real i * ?step)"
    by (rule in_range_close [OF s _ _ rng]) (use u0 u9 in simp_all)
  from rel_close_trans [OF s acc_mul [OF acc this] u0]
  have "rel_close (3 * u + u + 3 * u * u) ?p (real i / 499)" .
  then have p: "rel_close (5 * u) ?p (real i / 499)"
    by (rule rel_close_weaken) (use uu in simp)
  have "in_range ?p"
    by (rule in_range_close [OF p _ _ rng]) (use u0 u9 in simp_all)
  then have "in_range (?p + 0)" by simp
  from acc_add [OF acc this] have "rel_close u (fl_add ops ?p 0) ?p" by simp
  from rel_close_trans [OF p this u0]
  have "rel_close (5 * u + u + 5 * u * u) (fl_add ops ?p 0) (real i / 499)" .
  then have "rel_close (8 * u) (fl_add ops ?p 0) (real i / 499)"
    by (rule rel_close_weaken) (use uu in simp)
  with False show ?thesis by (simp add: linspace_nth [OF acc u0 u9 i])
qed

lemma sample_error:
  assumes acc: "accurate u ops" and u0: "0 \<le> u" and u9: "u \<le> 1 / 10 ^ 9" and i: "i < 500"
  shows "\<bar>linspace ops 0 1 500 ! i - real i / 499\<bar> \<le> 8 * u"
proof -
  have "real i / 499 \<le> 1" using i by simp
  then have "8 * u * \<bar>real i / 499\<bar> \<le> 8 * u * 1"
    using u0 by (intro mult_left_mono) simp_all
  with sample_close [OF acc u0 u9 i] show ?thesis by (simp add: rel_close_def)
qed



lemma bell_alt: "bell ops x = np_exp ops (bell_arg ops x)"
  by (simp add: bell_def bell_arg_def bell_scale_def)


lemma centre_distance:
  assumes "i < 500"
  shows "1 / 998 \<le> \<bar>real i / 499 - 1 / 2\<bar>" and "\<bar>real i / 499 - 1 / 2\<bar> \<le> 1 / 2"
proof -
  have "i \<le> 249 \<or> 250 \<le> i" by arith
  then show "1 / 998 \<le> \<bar>real i / 499 - 1 / 2\<bar>"
  proof
    assume "i \<le> 249"
    then have "real i \<le> 249" by simp
    then show ?thesis by (simp add: field_simps abs_if)
  next
    assume "250 \<le> i"
    then have "real i \<ge> 250" by simp
    then show ?thesis by (simp add: field_simps abs_if)
  qed
  from assms have "real i \<le> 499" by simp
  then show "\<bar>real i / 499 - 1 / 2\<bar> \<le> 1 / 2"
    by (simp add: field_simps abs_if)
qed

lemma scale_bounds:
  assumes acc: "accurate u ops" and u0: "0 \<le> u" and u9: "u \<le> 1 / 10 ^ 9"
  shows "19 / 1000 \<le> bell_scale ops" and "bell_scale ops \<le> 21 / 1000"
proof -
  define T where "T = tenth * tenth"
  have t1: "1 / 100 \<le> T" and t2: "T \<le> 101 / 10000"
    by (simp_all add: T_def tenth_def)
  have u9': "u \<le> 1 / 1000000000" using u9 by simp
  have aT: "\<bar>T\<bar> = T" "\<bar>2 * T\<bar> = 2 * T" using t1 by simp_all
  have "in_range T"
    by (rule in_rangeI) (use t1 t2 in \<open>simp_all add: aT\<close>)
  from acc_pow2 [OF acc this [unfolded T_def]]
  have pw: "rel_close u (py_pow2 ops tenth) T" by (simp add: T_def)
  from rel_close_mult [OF pw, of 2]
  have m: "rel_close u (2 * py_pow2 ops tenth) (2 * T)" .
  have uh: "u \<le> 1 / 2" using u9' by linarith
  have rng: "2 * T = 0 \<or> (2 / 10 ^ 8 \<le> \<bar>2 * T\<bar> \<and> \<bar>2 * T\<bar> \<le> 500)"
    unfolding aT using t1 t2 by simp
  have "in_range (2 * py_pow2 ops tenth)"
    by (rule in_range_close [OF m u0 uh rng])
  from rel_close_trans [OF m acc_mul [OF acc this] u0]
  have c0: "rel_close (u + u + u * u) (bell_scale ops) (2 * T)"
    by (simp add: bell_scale_def)
  have "u * u \<le> u * 1" using u0 u9' by (intro mult_left_mono) linarith+
  then have "u + u + u * u \<le> 3 * u" by linarith
  from rel_close_weaken [OF c0 this]
  have "\<bar>bell_scale ops - 2 * T\<bar> \<le> 3 * u * (2 * T)"
    unfolding rel_close_def aT .
  moreover have "3 * u * (2 * T) \<le> 3 * (1 / 1000000000) * (2 * (101 / 10000))"
    by (intro mult_mono) (use u0 u9' t1 t2 in linarith)+
  ultimately have e: "\<bar>bell_scale ops - 2 * T\<bar> \<le> 1 / 1000000" by linarith
  from e t1 show "19 / 1000 \<le> bell_scale ops" by linarith
  from e t2 show "bell_scale ops \<le> 21 / 1000" by linarith
qed

lemma diff_error:
  assumes acc: "accurate u ops" and u0: "0 \<le> u" and u9: "u \<le> 1 / 10 ^ 9" and i: "i < 500"
  shows "\<bar>fl_sub ops (linspace ops 0 1 500 ! i) 0.5 - (real i / 499 - 1 / 2)\<bar> \<le> 9 * u"
proof -
  let ?x = "linspace ops 0 1 500 ! i"
  note x = sample_error [OF acc u0 u9 i]
  note D = centre_distance [OF i]
  have u9': "u \<le> 1 / 1000000000" using u9 by simp
  have lo: "1 / 1000 \<le> \<bar>?x - 1 / 2\<bar>" and hi: "\<bar>?x - 1 / 2\<bar> \<le> 1"
    using x D u9' by linarith+
  have "in_range (?x - 0.5)"
    by (rule in_rangeI) (use lo hi in simp_all)
  from acc_sub [OF acc this]
  have "\<bar>fl_sub ops ?x 0.5 - (?x - 1 / 2)\<bar> \<le> u * \<bar>?x - 1 / 2\<bar>"
    by (simp add: rel_close_def)
  moreover have "u * \<bar>?x - 1 / 2\<bar> \<le> u * 1"
    using u0 hi by (intro mult_left_mono) simp_all
  ultimately show ?thesis using x by linarith
qed

lemma arg_bounds:
  assumes acc: "accurate u ops" and u0: "0 \<le> u" and u9: "u \<le> 1 / 10 ^ 9" and i: "i < 500"
  defines "D \<equiv> \<bar>real i / 499 - 1 / 2\<bar>"
  defines "t \<equiv> bell_arg ops (linspace ops 0 1 500 ! i)"
  shows "(1 - u) * ((1 - u) * ((D - 9 * u) * (D - 9 * u))) \<le> - (t * bell_scale ops)"
    and "- (t * bell_scale ops) \<le> (1 + u) * ((1 + u) * ((D + 9 * u) * (D + 9 * u)))"
    and "\<bar>t\<bar> \<le> 700"
proof -
  define d where "d = fl_sub ops (linspace ops 0 1 500 ! i) 0.5"
  define sq where "sq = np_square ops d"
  define c where "c = bell_scale ops"
  define q where "q = - sq / c"
  have t: "t = fl_div ops (- sq) c"
    by (simp add: t_def bell_arg_def sq_def d_def c_def)
  have u9': "u \<le> 1 / 1000000000" using u9 by simp
  note Db = centre_distance [OF i, folded D_def]
  have de: "\<bar>d - (real i / 499 - 1 / 2)\<bar> \<le> 9 * u"
    unfolding d_def by (rule diff_error [OF acc u0 u9 i])
  have lo: "D - 9 * u \<le> \<bar>d\<bar>" and hi: "\<bar>d\<bar> \<le> D + 9 * u"
    using de unfolding D_def by linarith+
  have lo0: "1 / 1000 \<le> D - 9 * u" and hi1: "D + 9 * u \<le> 1"
    using Db u9' by linarith+
  have dd: "d * d = \<bar>d\<bar> * \<bar>d\<bar>" by simp
  have dlo: "(D - 9 * u) * (D - 9 * u) \<le> d * d"
    unfolding dd by (intro mult_mono) (use lo lo0 u0 in linarith)+
  have dhi: "d * d \<le> (D + 9 * u) * (D + 9 * u)"
    unfolding dd by (intro mult_mono) (use hi hi1 lo0 u0 in linarith)+
  have "(1 / 1000) * (1 / 1000) \<le> (D - 9 * u) * (D - 9 * u)"
    by (intro mult_mono) (use lo0 u0 in linarith)+
  with dlo have dd_lo: "1 / 1000000 \<le> d * d" by simp
  have "(D + 9 * u) * (D + 9 * u) \<le> 1 * 1"
    by (intro mult_mono) (use hi1 lo0 u0 in linarith)+
  with dhi have dd_hi: "d * d \<le> 1" by simp
  have "in_range (d * d)"
    by (rule in_rangeI) (use dd_lo dd_hi in simp_all)
  from acc_square [OF acc this] have "\<bar>sq - d * d\<bar> \<le> u * (d * d)"
    using dd_lo by (simp add: rel_close_def sq_def)
  then have sq_lo: "(1 - u) * (d * d) \<le> sq" and sq_hi: "sq \<le> (1 + u) * (d * d)"
    by (simp_all add: algebra_simps abs_le_iff)
  have "u * (d * d) \<le> (1 / 1000000000) * 1"
    by (intro mult_mono) (use u0 u9' dd_lo dd_hi in linarith)+
  with \<open>\<bar>sq - d * d\<bar> \<le> u * (d * d)\<close> dd_lo dd_hi
  have sq_n: "9 / 10000000 \<le> sq" "sq \<le> 11 / 10"
    by linarith+
  note cb = scale_bounds [OF acc u0 u9, folded c_def]
  have cpos: "0 < c" using cb by linarith
  have q_abs: "\<bar>q\<bar> = sq / c" using sq_n cpos by (simp add: q_def)
  have q_hi: "sq / c \<le> 100"
    using pos_divide_le_eq [OF cpos, of sq 100] sq_n cb by simp
  have q_lo: "1 / 100000 \<le> sq / c"
    using pos_le_divide_eq [OF cpos, of "1 / 100000" sq] sq_n cb by simp
  have e8: "(1::real) / 10 ^ 8 \<le> 1 / 100000" by simp
  have "1 / 10 ^ 8 \<le> \<bar>q\<bar>" "\<bar>q\<bar> \<le> 1000"
    unfolding q_abs using q_lo q_hi e8 by linarith+
  then have "in_range q" by (rule in_rangeI)
  from acc_div [OF acc _ this [unfolded q_def]] cpos
  have tq: "rel_close u t q" by (simp add: t q_def)
  from rel_close_mult [OF tq, of c] cpos
  have "\<bar>c * t + sq\<bar> \<le> u * sq"
    using sq_n by (simp add: rel_close_def q_def)
  then have tc_lo: "(1 - u) * sq \<le> - (t * c)" and tc_hi: "- (t * c) \<le> (1 + u) * sq"
    by (simp_all add: algebra_simps abs_le_iff)
  have u1: "0 \<le> 1 - u" "0 \<le> 1 + u" using u0 u9' by linarith+
  have "(1 - u) * ((1 - u) * ((D - 9 * u) * (D - 9 * u))) \<le> (1 - u) * ((1 - u) * (d * d))"
    by (intro mult_left_mono dlo u1)
  also have "\<dots> \<le> (1 - u) * sq"
    by (intro mult_left_mono sq_lo u1)
  also note tc_lo
  finally show "(1 - u) * ((1 - u) * ((D - 9 * u) * (D - 9 * u))) \<le> - (t * bell_scale ops)"
    by (simp add: c_def)
  note tc_hi
  also have "(1 + u) * sq \<le> (1 + u) * ((1 + u) * (d * d))"
    by (intro mult_left_mono sq_hi u1)
  also have "\<dots> \<le> (1 + u) * ((1 + u) * ((D + 9 * u) * (D + 9 * u)))"
    by (intro mult_left_mono dhi u1)
  finally show "- (t * bell_scale ops) \<le> (1 + u) * ((1 + u) * ((D + 9 * u) * (D + 9 * u)))"
    by (simp add: c_def)
  from rel_close_bounds(2) [OF tq u0] have "\<bar>t\<bar> \<le> (1 + u) * (sq / c)"
    by (simp add: q_abs)
  also have "\<dots> \<le> 2 * 100"
    by (intro mult_mono) (use u0 u9' q_hi q_lo in linarith)+
  finally show "\<bar>t\<bar> \<le> 700" by simp
qed

lemma exp_compare:
  fixes u t s y z :: real
  assumes u0: "0 \<le> u" and u9: "u \<le> 1 / 10 ^ 9"
    and gap: "t + 1 / 1000000 \<le> s"
    and y: "y \<le> (1 + u) * exp t" and z: "(1 - u) * exp s \<le> z"
  shows "y < z"
proof -
  have u9': "u \<le> 1 / 1000000000" using u9 by simp
  have "1 + (s - t) \<le> exp (s - t)" by (rule exp_ge_add_one_self)
  with gap have g: "1 + 1 / 1000000 \<le> exp (s - t)" by linarith
  have e: "exp t * exp (s - t) = exp s" by (simp add: exp_add [symmetric])
  have "u * (1 / 1000000) \<le> (1 / 1000000000) * (1 / 1000000)"
    by (intro mult_right_mono u9') simp
  then have k: "1 + u < (1 - u) * (1 + 1 / 1000000)"
    using u0 u9' by (simp add: algebra_simps)
  have u1: "0 \<le> 1 - u" using u9' by linarith
  have "(1 + u) * exp t < ((1 - u) * (1 + 1 / 1000000)) * exp t"
    by (intro mult_strict_right_mono k) simp
  also have "\<dots> = (1 - u) * (exp t * (1 + 1 / 1000000))" by simp
  also have "\<dots> \<le> (1 - u) * (exp t * exp (s - t))"
    by (intro mult_left_mono g u1) simp
  also have "\<dots> = (1 - u) * exp s" by (simp only: e)
  finally show ?thesis using y z by linarith
qed

lemma distance_gap:
  assumes "\<bar>real i / 499 - 1 / 2\<bar> < \<bar>real j / 499 - 1 / 2\<bar>"
  shows "\<bar>real i / 499 - 1 / 2\<bar> + 1 / 499 \<le> \<bar>real j / 499 - 1 / 2\<bar>"
proof -
  have d: "\<bar>real k / 499 - 1 / 2\<bar> = real_of_int \<bar>2 * int k - 499\<bar> / 998" for k
  proof -
    have "real k / 499 - 1 / 2 = real_of_int (2 * int k - 499) / 998" by simp
    then show ?thesis by (simp only: abs_divide of_int_abs)
  qed
  from assms have "real_of_int \<bar>2 * int i - 499\<bar> < real_of_int \<bar>2 * int j - 499\<bar>"
    unfolding d by simp
  then have "\<bar>2 * int i - 499\<bar> < \<bar>2 * int j - 499\<bar>" by (simp only: of_int_less_iff)
  then have "\<bar>2 * int i - 499\<bar> + 2 \<le> \<bar>2 * int j - 499\<bar>" by presburger
  then have "real_of_int (\<bar>2 * int i - 499\<bar> + 2) \<le> real_of_int \<bar>2 * int j - 499\<bar>"
    by (simp only: of_int_le_iff)
  then show ?thesis unfolding d by simp
qed

lemma product_gap:
  fixes t c m g :: real
  assumes "m \<le> - (t * c)" and "0 < c" and "c \<le> 21 / 1000" and "21 / 1000 * g \<le> m"
    and "0 \<le> g"
  shows "t + g \<le> 0"
proof (rule ccontr)
  assume "\<not> t + g \<le> 0"
  then have "- t < g" by linarith
  then have "(- t) * c < g * c"
    using assms(2) by (rule mult_strict_right_mono)
  moreover have "g * c \<le> g * (21 / 1000)"
    using assms(3,5) by (rule mult_left_mono)
  ultimately show False using assms(1,4) by simp
qed

lemma square_gap:
  fixes u a b :: real
  assumes u0: "0 \<le> u" and u9: "u \<le> 1 / 10 ^ 9"
    and a: "1 / 998 \<le> a" and ab: "a + 1 / 499 \<le> b" and b: "b \<le> 1 / 2"
  shows "(1 + u) * ((1 + u) * ((a + 9 * u) * (a + 9 * u))) + 1 / 1000000 \<le>
         (1 - u) * ((1 - u) * ((b - 9 * u) * (b - 9 * u)))"
proof -
  have u9': "u \<le> 1 / 1000000000" using u9 by simp
  define p where "p = u * a"
  define q where "q = u * b"
  define r where "r = u * u"
  define al where "al = (1 + u) * (a + 9 * u)"
  define be where "be = (1 - u) * (b - 9 * u)"
  have a0: "0 \<le> a" and a2: "a \<le> 1 / 2" and b0: "0 \<le> b"
    using a ab b by linarith+
  have p: "0 \<le> p" "p \<le> u * (1 / 2)"
    unfolding p_def by (rule mult_nonneg_nonneg [OF u0 a0], rule mult_left_mono [OF a2 u0])
  have q: "0 \<le> q" "q \<le> u * (1 / 2)"
    unfolding q_def by (rule mult_nonneg_nonneg [OF u0 b0], rule mult_left_mono [OF b u0])
  have r: "0 \<le> r" "r \<le> u * (1 / 1000000000)"
    unfolding r_def by (rule mult_nonneg_nonneg [OF u0 u0], rule mult_left_mono [OF u9' u0])
  have al: "al = a + 9 * u + p + 9 * r"
    by (simp add: al_def p_def r_def algebra_simps)
  have be: "be = b - 9 * u - q + 9 * r"
    by (simp add: be_def q_def r_def algebra_simps)
  have 1: "1 / 998 \<le> be - al" using al be p q r u0 u9' ab by linarith
  have 2: "2 / 998 \<le> be + al" using al be p q r u0 u9' a ab by linarith
  have "(1 / 998) * (2 / 998) \<le> (be - al) * (be + al)"
    by (intro mult_mono 1 2) (use 1 in linarith)+
  then have "al * al + 1 / 1000000 \<le> be * be"
    by (simp add: algebra_simps)
  moreover have "(1 + u) * ((1 + u) * ((a + 9 * u) * (a + 9 * u))) = al * al"
    by (simp add: al_def algebra_simps)
  moreover have "(1 - u) * ((1 - u) * ((b - 9 * u) * (b - 9 * u))) = be * be"
    by (simp add: be_def algebra_simps)
  ultimately show ?thesis by simp
qed

lemma density_bounds:
  assumes acc: "accurate u ops" and u0: "0 \<le> u" and u9: "u \<le> 1 / 10 ^ 9" and i: "i < 500"
  shows "bell ops (linspace ops 0 1 500 ! i) \<le>
           (1 + u) * exp (bell_arg ops (linspace ops 0 1 500 ! i))"
    and "(1 - u) * exp (bell_arg ops (linspace ops 0 1 500 ! i)) \<le>
           bell ops (linspace ops 0 1 500 ! i)"
proof -
  let ?t = "bell_arg ops (linspace ops 0 1 500 ! i)"
  from acc_exp [OF acc arg_bounds(3) [OF acc u0 u9 i]]
  have "\<bar>bell ops (linspace ops 0 1 500 ! i) - exp ?t\<bar> \<le> u * exp ?t"
    by (simp add: rel_close_def bell_alt)
  then show "bell ops (linspace ops 0 1 500 ! i) \<le> (1 + u) * exp ?t"
    and "(1 - u) * exp ?t \<le> bell ops (linspace ops 0 1 500 ! i)"
    by (simp_all add: algebra_simps abs_le_iff)
qed

lemma density_below_one:
  assumes acc: "accurate u ops" and u0: "0 \<le> u" and u9: "u \<le> 1 / 10 ^ 9" and i: "i < 500"
  shows "bell ops (linspace ops 0 1 500 ! i) < 1"
proof -
  let ?t = "bell_arg ops (linspace ops 0 1 500 ! i)"
  define D where "D = \<bar>real i / 499 - 1 / 2\<bar>"
  have u9': "u \<le> 1 / 1000000000" using u9 by simp
  note Db = centre_distance [OF i, folded D_def]
  note cb = scale_bounds [OF acc u0 u9]
  have lo: "1 / 1000 \<le> D - 9 * u" using Db u9' by linarith
  have s1: "(1 / 1000) * (1 / 1000) \<le> (D - 9 * u) * (D - 9 * u)"
    by (intro mult_mono) (use lo in linarith)+
  have h: "1 / 2 \<le> 1 - u" and h0: "0 \<le> 1 - u" using u9' by linarith+
  have s2: "(1 / 2) * ((1 / 1000) * (1 / 1000)) \<le> (1 - u) * ((D - 9 * u) * (D - 9 * u))"
    by (rule mult_mono [OF h s1 h0]) simp
  have "(1 / 2) * ((1 / 2) * ((1 / 1000) * (1 / 1000))) \<le>
      (1 - u) * ((1 - u) * ((D - 9 * u) * (D - 9 * u)))"
    by (rule mult_mono [OF h s2 h0]) simp
  with arg_bounds(1) [OF acc u0 u9 i, folded D_def]
  have m: "1 / 4000000 \<le> - (?t * bell_scale ops)" by simp
  have "?t + 1 / 1000000 \<le> 0"
    by (rule product_gap [OF m]) (use cb in simp_all)
  moreover have "(1 - u) * exp 0 \<le> 1" using u0 by simp
  ultimately show ?thesis
    by (rule exp_compare [OF u0 u9 _ density_bounds(1) [OF acc u0 u9 i]])
qed

lemma density_compare:
  assumes acc: "accurate u ops" and u0: "0 \<le> u" and u9: "u \<le> 1 / 10 ^ 9"
    and i: "i < 500" and j: "j < 500"
    and lt: "\<bar>real i / 499 - 1 / 2\<bar> < \<bar>real j / 499 - 1 / 2\<bar>"
  shows "bell ops (linspace ops 0 1 500 ! j) < bell ops (linspace ops 0 1 500 ! i)"
proof -
  let ?ti = "bell_arg ops (linspace ops 0 1 500 ! i)"
  let ?tj = "bell_arg ops (linspace ops 0 1 500 ! j)"
  define a where "a = \<bar>real i / 499 - 1 / 2\<bar>"
  define b where "b = \<bar>real j / 499 - 1 / 2\<bar>"
  note cb = scale_bounds [OF acc u0 u9]
  have g: "(1 + u) * ((1 + u) * ((a + 9 * u) * (a + 9 * u))) + 1 / 1000000 \<le>
      (1 - u) * ((1 - u) * ((b - 9 * u) * (b - 9 * u)))"
    unfolding a_def b_def
    by (rule square_gap [OF u0 u9 centre_distance(1) [OF i] distance_gap [OF lt]
          centre_distance(2) [OF j]])
  from arg_bounds(2) [OF acc u0 u9 i, folded a_def] arg_bounds(1) [OF acc u0 u9 j, folded b_def] g
  have "1 / 1000000 \<le> - ((?tj - ?ti) * bell_scale ops)"
    by (simp add: algebra_simps)
  then have "(?tj - ?ti) + 1 / 100000 \<le> 0"
    by (rule product_gap) (use cb in simp_all)
  then have "?tj + 1 / 1000000 \<le> ?ti" by simp
  then show ?thesis
    by (rule exp_compare [OF u0 u9 _ density_bounds(1) [OF acc u0 u9 j]
          density_bounds(2) [OF acc u0 u9 i]])
qed

lemma sample_not_half:
  assumes acc: "accurate u ops" and u0: "0 \<le> u" and u9: "u \<le> 1 / 10 ^ 9" and i: "i < 500"
  shows "linspace ops 0 1 500 ! i \<noteq> 1 / 2"
proof -
  have u9': "u \<le> 1 / 1000000000" using u9 by simp
  from sample_error [OF acc u0 u9 i] centre_distance(1) [OF i] u9'
  show ?thesis by linarith
qed

lemma sample_first:
  assumes acc: "accurate u ops" and u0: "0 \<le> u" and u9: "u \<le> 1 / 10 ^ 9"
  shows "linspace ops 0 1 500 ! 0 = 0"
  using sample_close [OF acc u0 u9, of 0] by (simp add: rel_close_def)

lemma sample_last:
  assumes acc: "accurate u ops" and u0: "0 \<le> u" and u9: "u \<le> 1 / 10 ^ 9"
  shows "linspace ops 0 1 500 ! 499 = 1"
  using linspace_nth [OF acc u0 u9, of 499] by simp

lemma curve_x: "line_x (plot_bell_curve ops score) = linspace ops 0 1 500"
  by (simp add: plot_bell_curve_def Let_def)

lemma curve_y_nth:
  "i < 500 \<Longrightarrow> line_y (plot_bell_curve ops score) ! i = bell ops (linspace ops 0 1 500 ! i)"
  by (simp add: plot_bell_curve_def Let_def length_linspace)

lemma curve_y_length: "length (line_y (plot_bell_curve ops score)) = 500"
  by (simp add: plot_bell_curve_def Let_def length_linspace)

lemma skew: "\<bar>r * (1 + 1 / 2 ^ 53) - r\<bar> = 1 / 2 ^ 53 * \<bar>r\<bar>" for r :: real
proof -
  have "r * (1 + 1 / 2 ^ 53) - r = 1 / 2 ^ 53 * r" by (simp add: algebra_simps)
  then show ?thesis by (simp only: abs_mult) simp
qed

lemma skewed_ops_accurate: "accurate (1 / 2 ^ 53) skewed_ops"
  unfolding accurate_def skewed_ops_def
  by (simp only: float_ops.simps skew) simp

lemma skewed_sample: "linspace skewed_ops 0 1 500 ! 250 = 250 / 499 * (1 + 1 / 2 ^ 53) ^ 4"
proof -
  have u: "(0::real) \<le> 1 / 2 ^ 53" "(1::real) / 2 ^ 53 \<le> 1 / 10 ^ 9" by simp_all
  show ?thesis
    by (simp only: linspace_nth [OF skewed_ops_accurate u, of 250])
       (simp add: skewed_ops_def power4_eq_xxxx)
qed

lemma exact_ops_accurate: "accurate 0 exact_ops"
  by (simp add: accurate_def exact_ops_def)

text \<open>
  C3, as stated, is false: the curve has no sample at 0.5 and no density 1.0, whatever the
  rounding. The 500 samples approximate \<open>i/499\<close>, each of which is at least \<open>1/998\<close> away
  from 0.5.
\<close>

theorem curve_peak_counterexample:
  "\<not> (\<exists>ops u score. accurate u ops \<and> 0 \<le> u \<and> u \<le> 1 / 10 ^ 9 \<and>
        (1 / 2 \<in> set (line_x (plot_bell_curve ops score)) \<or>
         1 \<in> set (line_y (plot_bell_curve ops score)))) \<and>
   accurate 0 exact_ops \<and>
   1 / 2 \<notin> set (line_x (plot_bell_curve exact_ops (PyFinite False 1 (- 1)))) \<and>
   1 \<notin> set (line_y (plot_bell_curve exact_ops (PyFinite False 1 (- 1))))"
proof -
  have x: "1 / 2 \<notin> set (line_x (plot_bell_curve ops score))"
    if "accurate u ops" "0 \<le> u" "u \<le> 1 / 10 ^ 9" for ops u score
  proof
    assume "1 / 2 \<in> set (line_x (plot_bell_curve ops score))"
    then obtain i where "i < 500" "linspace ops 0 1 500 ! i = 1 / 2"
      by (auto simp: curve_x in_set_conv_nth length_linspace)
    with sample_not_half [OF that] show False by simp
  qed
  have y: "1 \<notin> set (line_y (plot_bell_curve ops score))"
    if "accurate u ops" "0 \<le> u" "u \<le> 1 / 10 ^ 9" for ops u score
  proof
    assume "1 \<in> set (line_y (plot_bell_curve ops score))"
    then obtain i where "i < 500" "line_y (plot_bell_curve ops score) ! i = 1"
      by (auto simp: in_set_conv_nth curve_y_length)
    with density_below_one [OF that, of i] show False by (simp add: curve_y_nth)
  qed
  have z: "(0::real) \<le> 1 / 10 ^ 9" by simp
  from x y x [OF exact_ops_accurate order_refl z] y [OF exact_ops_accurate order_refl z]
    exact_ops_accurate
  show ?thesis by blast
qed

text \<open>
  C3, amended. For every score and every arithmetic that rounds within \<open>u \<le> 10^-9\<close>
  (binary64 has \<open>u = 2^-53\<close>): the curve has exactly 500 samples; the first is 0, the
  last is 1 and the \<open>i\<close>-th is \<open>i/499\<close> up to the relative error \<open>8u\<close>, so they are
  uniform over the interval up to rounding; the density at each is the rounded evaluation
  of \<open>exp(-(x-0.5)^2 / (2*0.1^2))\<close>; no sample is at 0.5 and every density is below 1;
  and of two samples the one whose position \<open>i/499\<close> is farther from 0.5 has the
  strictly smaller density. Two samples \<open>i\<close> and \<open>499-i\<close>, at equal distances from 0.5
  before rounding, are not compared.
\<close>

theorem curve_samples:
  assumes "accurate u ops" and "0 \<le> u" and "u \<le> 1 / 10 ^ 9"
  shows "length (line_x (plot_bell_curve ops score)) = 500 \<and>
         length (line_y (plot_bell_curve ops score)) = 500 \<and>
         line_x (plot_bell_curve ops score) ! 0 = 0 \<and>
         line_x (plot_bell_curve ops score) ! 499 = 1 \<and>
         (\<forall>i<500.
            \<bar>line_x (plot_bell_curve ops score) ! i - real i / 499\<bar> \<le> 8 * u * (real i / 499) \<and>
            line_y (plot_bell_curve ops score) ! i =
              bell ops (line_x (plot_bell_curve ops score) ! i)) \<and>
         1 / 2 \<notin> set (line_x (plot_bell_curve ops score)) \<and>
         1 \<notin> set (line_y (plot_bell_curve ops score)) \<and>
         (\<forall>i<500. line_y (plot_bell_curve ops score) ! i < 1) \<and>
         (\<forall>i<500. \<forall>j<500.
            \<bar>real i / 499 - 1 / 2\<bar> < \<bar>real j / 499 - 1 / 2\<bar> \<longrightarrow>
            line_y (plot_bell_curve ops score) ! j < line_y (plot_bell_curve ops score) ! i)"
proof (intro conjI allI impI)
  show "length (line_x (plot_bell_curve ops score)) = 500"
    by (simp add: curve_x length_linspace)
  show "length (line_y (plot_bell_curve ops score)) = 500"
    by (rule curve_y_length)
  show "line_x (plot_bell_curve ops score) ! 0 = 0"
    by (simp add: curve_x sample_first [OF assms])
  show "line_x (plot_bell_curve ops score) ! 499 = 1"
    by (simp add: curve_x sample_last [OF assms])
  show "1 / 2 \<notin> set (line_x (plot_bell_curve ops score))"
  proof
    assume "1 / 2 \<in> set (line_x (plot_bell_curve ops score))"
    then obtain i where "i < 500" "linspace ops 0 1 500 ! i = 1 / 2"
      by (auto simp: curve_x in_set_conv_nth length_linspace)
    with sample_not_half [OF assms] show False by simp
  qed
  show "1 \<notin> set (line_y (plot_bell_curve ops score))"
  proof
    assume "1 \<in> set (line_y (plot_bell_curve ops score))"
    then obtain i where "i < 500" "line_y (plot_bell_curve ops score) ! i = 1"
      by (auto simp: in_set_conv_nth curve_y_length)
    with density_below_one [OF assms, of i] show False by (simp add: curve_y_nth)
  qed
next
  fix i :: nat
  assume i: "i < 500"
  have "real i / 499 \<ge> 0" by simp
  with sample_close [OF assms i]
  show "\<bar>line_x (plot_bell_curve ops score) ! i - real i / 499\<bar> \<le> 8 * u * (real i / 499)"
    by (simp add: curve_x rel_close_def)
  show "line_y (plot_bell_curve ops score) ! i =
      bell ops (line_x (plot_bell_curve ops score) ! i)"
    using i by (simp add: curve_x curve_y_nth)
  show "line_y (plot_bell_curve ops score) ! i < 1"
    using density_below_one [OF assms i] i by (simp add: curve_y_nth)
next
  fix i j :: nat
  assume "i < 500" "j < 500" "\<bar>real i / 499 - 1 / 2\<bar> < \<bar>real j / 499 - 1 / 2\<bar>"
  then show "line_y (plot_bell_curve ops score) ! j < line_y (plot_bell_curve ops score) ! i"
    using density_compare [OF assms, of i j] by (simp add: curve_y_nth)
qed

theorem curve_samples_witness:
  "accurate 0 exact_ops \<and>
   line_x (plot_bell_curve exact_ops (PyFinite False 1 (- 1))) ! 0 = 0 \<and>
   line_x (plot_bell_curve exact_ops (PyFinite False 1 (- 1))) ! 499 = 1 \<and>
   line_x (plot_bell_curve exact_ops (PyFinite False 1 (- 1))) ! 250 = 250 / 499 \<and>
   line_y (plot_bell_curve exact_ops (PyFinite False 1 (- 1))) ! 0 <
     line_y (plot_bell_curve exact_ops (PyFinite False 1 (- 1))) ! 250 \<and>
   line_y (plot_bell_curve exact_ops (PyFinite False 1 (- 1))) ! 250 < 1 \<and>
   accurate (1 / 2 ^ 53) skewed_ops \<and>
   line_x (plot_bell_curve skewed_ops (PyFinite False 1 (- 1))) ! 250 =
     250 / 499 * (1 + 1 / 2 ^ 53) ^ 4 \<and>
   line_y (plot_bell_curve skewed_ops (PyFinite False 1 (- 1))) ! 0 <
     line_y (plot_bell_curve skewed_ops (PyFinite False 1 (- 1))) ! 250"
proof -
  let ?c = "plot_bell_curve exact_ops (PyFinite False 1 (- 1))"
  have z: "(0::real) \<le> 1 / 10 ^ 9" by simp
  note c = curve_samples [OF exact_ops_accurate order_refl z, of "PyFinite False 1 (- 1)"]
  have X: "i < 500 \<Longrightarrow> \<bar>line_x ?c ! i - real i / 499\<bar> \<le> 8 * 0 * (real i / 499)" for i
    using c by blast
  have L: "i < 500 \<Longrightarrow> line_y ?c ! i < 1" for i
    using c by blast
  have M: "i < 500 \<Longrightarrow> j < 500 \<Longrightarrow> \<bar>real i / 499 - 1 / 2\<bar> < \<bar>real j / 499 - 1 / 2\<bar> \<Longrightarrow>
      line_y ?c ! j < line_y ?c ! i" for i j
    using c by blast
  have x0: "line_x ?c ! 0 = 0" and x499: "line_x ?c ! 499 = 1"
    using c by blast+
  have x250: "line_x ?c ! 250 = 250 / 499" using X [of 250] by simp
  have lt: "line_y ?c ! 0 < line_y ?c ! 250" using M [of 250 0] by simp
  let ?d = "plot_bell_curve skewed_ops (PyFinite False 1 (- 1))"
  have w: "(0::real) \<le> 1 / 2 ^ 53" "(1::real) / 2 ^ 53 \<le> 1 / 10 ^ 9" by simp_all
  note d = curve_samples [OF skewed_ops_accurate w, of "PyFinite False 1 (- 1)"]
  have N: "i < 500 \<Longrightarrow> j < 500 \<Longrightarrow> \<bar>real i / 499 - 1 / 2\<bar> < \<bar>real j / 499 - 1 / 2\<bar> \<Longrightarrow>
      line_y ?d ! j < line_y ?d ! i" for i j
    using d by blast
  have lt': "line_y ?d ! 0 < line_y ?d ! 250" using N [of 250 0] by simp
  have s250: "line_x ?d ! 250 = 250 / 499 * (1 + 1 / 2 ^ 53) ^ 4"
    by (simp only: curve_x skewed_sample)
  show ?thesis
    using exact_ops_accurate x0 x499 x250 lt L [of 250] skewed_ops_accurate s250 lt'
    by (simp only: simp_thms)
qed

section \<open>Floats: rounding and formatting\<close>

lemma pow2_power_int: "pow2 c = power_int 2 c"
  by (simp add: pow2_def power_int_def power_one_over inverse_eq_divide)

lemma pow2_add: "pow2 (a + b) = pow2 a * pow2 b"
  by (simp add: pow2_power_int power_int_add)

lemma pow2_pos: "0 < pow2 e"
  by (simp add: pow2_def)

lemma of_char_digit_char: "d < 10 \<Longrightarrow> (of_char (digit_char d) :: nat) = 48 + d"
  by (simp add: digit_char_def)

lemma ascii_digit_digit_char: "d < 10 \<Longrightarrow> ascii_digit (digit_char d)"
  by (simp add: ascii_digit_def of_char_digit_char)

lemma decimal_digits: "list_all ascii_digit (decimal k)"
proof (induction k rule: decimal.induct)
  case (1 n)
  show ?case
  proof (cases "n < 10")
    case True
    then show ?thesis by (simp add: decimal.simps [of n] ascii_digit_digit_char)
  next
    case False
    with "1" show ?thesis
      by (simp add: decimal.simps [of n] ascii_digit_digit_char)
  qed
qed

lemma decimal_not_Nil: "decimal k \<noteq> []"
  by (simp add: decimal.simps [of k])

lemma read_decimal_snoc: "read_decimal (s @ [c]) = 10 * read_decimal s + (of_char c - 48)"
  by (simp add: read_decimal_def)

lemma read_decimal_append:
  "read_decimal (a @ b) = read_decimal a * 10 ^ length b + read_decimal b"
proof (induction b rule: rev_induct)
  case Nil
  show ?case by (simp add: read_decimal_def)
next
  case (snoc c b)
  have "read_decimal (a @ b @ [c]) = 10 * read_decimal (a @ b) + (of_char c - 48)"
    using read_decimal_snoc [of "a @ b" c] by simp
  with snoc show ?case by (simp add: read_decimal_snoc algebra_simps)
qed

lemma read_decimal_decimal: "read_decimal (decimal k) = k"
proof (induction k rule: decimal.induct)
  case (1 n)
  show ?case
  proof (cases "n < 10")
    case True
    then show ?thesis
      by (simp add: decimal.simps [of n] read_decimal_def of_char_digit_char)
  next
    case False
    with "1" show ?thesis
      by (simp add: decimal.simps [of n] read_decimal_snoc of_char_digit_char)
  qed
qed

lemma read_decimal_zero_Cons: "read_decimal (CHR ''0'' # s) = read_decimal s"
  by (simp add: read_decimal_def)

lemma read_decimal_zeros: "read_decimal (replicate k CHR ''0'' @ s) = read_decimal s"
  by (induction k) (simp_all add: read_decimal_zero_Cons)

lemma length_decimal: "0 < n \<Longrightarrow> k < 10 ^ n \<Longrightarrow> length (decimal k) \<le> n"
proof (induction k arbitrary: n rule: decimal.induct)
  case (1 k)
  show ?case
  proof (cases "k < 10")
    case True
    with "1.prems" show ?thesis by (simp add: decimal.simps [of k])
  next
    case False
    with "1.prems" obtain n' where n: "n = Suc n'" "0 < n'"
      by (cases n; cases "n - 1") auto
    with "1.prems" have "k div 10 < 10 ^ n'" by (simp add: less_mult_imp_div_less mult.commute)
    from "1.IH" [OF False n(2) this] n show ?thesis
      using False by (simp add: decimal.simps [of k])
  qed
qed

lemma round_shift_error: "\<bar>real (round_shift m k) - real m / 2 ^ k\<bar> \<le> 1 / 2"
proof -
  define q where "q = m div 2 ^ k"
  define r where "r = m mod 2 ^ k"
  have m: "m = q * 2 ^ k + r" unfolding q_def r_def by (rule div_mult_mod_eq [symmetric])
  have r: "r < 2 ^ k" by (simp add: r_def)
  have frac: "real m / 2 ^ k = real q + real r / 2 ^ k"
    by (simp add: m field_simps)
  from r have "real r < real (2 ^ k)" by (simp only: of_nat_less_iff)
  then have r1: "real r / 2 ^ k < 1" by simp
  show ?thesis
  proof (cases "2 * r > 2 ^ k \<or> (2 * r = 2 ^ k \<and> odd q)")
    case True
    then have rs: "round_shift m k = q + 1"
      by (auto simp: round_shift_def Let_def q_def r_def)
    from True have "2 * r \<ge> 2 ^ k" by auto
    then have "real (2 * r) \<ge> real (2 ^ k)" by (simp only: of_nat_le_iff)
    then have "real r / 2 ^ k \<ge> 1 / 2" by (simp add: field_simps)
    with r1 show ?thesis by (simp add: rs frac)
  next
    case False
    then have rs: "round_shift m k = q"
      by (auto simp: round_shift_def Let_def q_def r_def)
    from False have "2 * r \<le> 2 ^ k" by auto
    then have "real (2 * r) \<le> real (2 ^ k)" by (simp only: of_nat_le_iff)
    then have "real r / 2 ^ k \<le> 1 / 2" by (simp add: field_simps)
    then show ?thesis by (simp add: rs frac)
  qed
qed

lemma length_zfill: "length s \<le> n \<Longrightarrow> length (zfill n s) = n"
  by (simp add: zfill_def)

lemma zfill_digits: "list_all ascii_digit s \<Longrightarrow> list_all ascii_digit (zfill n s)"
  by (auto simp: zfill_def ascii_digit_def list_all_iff)

lemma read_decimal_zfill: "read_decimal (zfill n s) = read_decimal s"
  by (simp add: zfill_def read_decimal_zeros)

lemma scaled_round_error:
  "\<bar>real (scaled_round n m e) / 10 ^ n - real m * pow2 e\<bar> \<le> 1 / (2 * 10 ^ n)"
proof (cases "0 \<le> e")
  case True
  then show ?thesis by (simp add: scaled_round_def pow2_def)
next
  case False
  let ?k = "nat (- e)"
  let ?r = "real (round_shift (m * 10 ^ n) ?k)"
  have "\<bar>?r / 10 ^ n - real m * (1 / 2 ^ ?k)\<bar> = \<bar>(?r - real (m * 10 ^ n) / 2 ^ ?k) / 10 ^ n\<bar>"
    by (simp add: diff_divide_distrib)
  also have "\<dots> = \<bar>?r - real (m * 10 ^ n) / 2 ^ ?k\<bar> / 10 ^ n"
    by simp
  also have "\<dots> \<le> (1 / 2) / 10 ^ n"
    by (rule divide_right_mono [OF round_shift_error]) simp
  finally have "\<bar>?r / 10 ^ n - real m * (1 / 2 ^ ?k)\<bar> \<le> 1 / (2 * 10 ^ n)"
    by simp
  then show ?thesis using False by (simp add: scaled_round_def pow2_def)
qed

lemma format_f_formatted:
  assumes n: "0 < n"
  shows "formatted_to n (float_value (PyFinite s m e)) (format_f n (PyFinite s m e))"
proof -
  define q where "q = scaled_round n m e"
  define ip where "ip = decimal (q div 10 ^ n)"
  define fp where "fp = zfill n (decimal (q mod 10 ^ n))"
  define sg where "sg = (if s then ''-'' else '''')"
  define v where "v = float_value (PyFinite s m e)"
  define p where "p = real m * pow2 e"
  have shape: "format_f n (PyFinite s m e) = sg @ ip @ ''.'' @ fp"
    using n by (simp add: format_f_def Let_def q_def ip_def fp_def sg_def)
  have p0: "0 \<le> p" by (simp add: p_def pow2_def)
  have v: "v = (if s then - p else p)"
    by (simp add: v_def p_def float_value_def)
  have sign: "(sg = ''-'' \<and> v \<le> 0) \<or> (sg = '''' \<and> 0 \<le> v)"
    using p0 by (simp add: sg_def v)
  have absv: "\<bar>v\<bar> = p" using p0 by (simp add: v)
  have len: "length fp = n"
    unfolding fp_def by (rule length_zfill, rule length_decimal [OF n]) simp
  have dig: "list_all ascii_digit (ip @ fp)"
    by (simp add: ip_def fp_def decimal_digits zfill_digits)
  have "read_decimal (ip @ fp) = q div 10 ^ n * 10 ^ n + q mod 10 ^ n"
    by (simp add: read_decimal_append len)
       (simp add: ip_def fp_def read_decimal_zfill read_decimal_decimal)
  then have rd: "read_decimal (ip @ fp) = q" by (simp only: div_mult_mod_eq)
  have err: "\<bar>real (read_decimal (ip @ fp)) / 10 ^ n - \<bar>v\<bar>\<bar> \<le> 1 / (2 * 10 ^ n)"
    unfolding rd absv q_def p_def by (rule scaled_round_error)
  have "ip \<noteq> []" by (simp add: ip_def decimal_not_Nil)
  with shape sign len dig err show ?thesis
    unfolding formatted_to_def v_def by blast
qed

lemma float_round_exact:
  assumes "int (bit_length m) \<le> 53" and "- 1074 \<le> e" and "int (bit_length m) + e \<le> 1024"
  shows "float_round s m e = PyFinite s m e"
  using assms by (simp add: float_round_def Let_def)

text \<open>
  Rounding is to a nearest float: a finite result differs from the exact value by at most
  half a unit of its own last place.
\<close>

lemma float_round_error:
  assumes "float_round s m e = PyFinite s' m' e'"
  shows "s' = s \<and>
         \<bar>float_value (PyFinite s' m' e') - float_value (PyFinite s m e)\<bar> \<le> pow2 e' / 2"
proof -
  define sh where "sh = max (int (bit_length m) - 53) (- 1074 - e)"
  show ?thesis
  proof (cases "sh \<le> 0")
    case True
    with assms have "s' = s" "m' = m" "e' = e"
      by (auto simp: float_round_def Let_def sh_def split: if_splits)
    then show ?thesis using pow2_pos [of e] by simp
  next
    case False
    with assms have eq: "s' = s" "m' = round_shift m (nat sh)" "e' = e + sh"
      by (auto simp: float_round_def Let_def sh_def split: if_splits)
    have psh: "pow2 sh = 2 ^ nat sh" using False by (simp add: pow2_def)
    have pe: "pow2 (e + sh) = pow2 e * 2 ^ nat sh"
      using pow2_add [of e sh] psh by simp
    have pos: "0 < pow2 e" by (rule pow2_pos)
    let ?d = "real (round_shift m (nat sh)) - real m / 2 ^ nat sh"
    have "real m' * pow2 e' - real m * pow2 e = ?d * (pow2 e * 2 ^ nat sh)"
      by (simp add: eq pe field_simps)
    then have "\<bar>real m' * pow2 e' - real m * pow2 e\<bar> = \<bar>?d\<bar> * (pow2 e * 2 ^ nat sh)"
      using pos by (simp add: abs_mult)
    also have "\<dots> \<le> (1 / 2) * (pow2 e * 2 ^ nat sh)"
      using pos by (intro mult_right_mono round_shift_error) simp
    finally have "\<bar>real m' * pow2 e' - real m * pow2 e\<bar> \<le> pow2 e' / 2"
      by (simp add: eq pe)
    moreover have "\<bar>float_value (PyFinite s' m' e') - float_value (PyFinite s m e)\<bar> =
        \<bar>real m' * pow2 e' - real m * pow2 e\<bar>"
      unfolding eq(1) float_value_def by (cases s) (simp_all add: abs_minus_commute)
    ultimately show ?thesis using eq(1) by simp
  qed
qed

text \<open>
  C5. When both fields are read as floats, the label is \<open>EPSS Score:\<close> with the score
  formatted by \<open>.4f\<close> and \<open>Percentile:\<close> with the float product of the percentile and 100
  formatted by \<open>.2f\<close>. For a finite float such a text is the value to that many decimal
  places: a sign, an integer part, a point and exactly 4 (or 2) digits, denoting a multiple of
  \<open>10^-4\<close> (or \<open>10^-2\<close>) nearest to the value of the float.
\<close>

theorem success_label_format:
  assumes "read_field float_of_str v ''epss'' = Inr score"
    and "read_field float_of_str v ''percentile'' = Inr pct"
  shows "show_result float_of_str ops v s =
           (Returned,
            s\<lparr>epss_score_label :=
                ''EPSS Score: '' @ format_f 4 score @
                ''    Percentile: '' @ format_f 2 (float_mul pct (PyFinite False 100 0)),
              ax := Some (plot_bell_curve ops score)\<rparr>) \<and>
         (float_is_finite score \<longrightarrow>
            formatted_to 4 (float_value score) (format_f 4 score)) \<and>
         (float_is_finite (float_mul pct (PyFinite False 100 0)) \<longrightarrow>
            formatted_to 2 (float_value (float_mul pct (PyFinite False 100 0)))
              (format_f 2 (float_mul pct (PyFinite False 100 0))))"
proof (intro conjI impI)
  show "show_result float_of_str ops v s =
           (Returned,
            s\<lparr>epss_score_label :=
                ''EPSS Score: '' @ format_f 4 score @
                ''    Percentile: '' @ format_f 2 (float_mul pct (PyFinite False 100 0)),
              ax := Some (plot_bell_curve ops score)\<rparr>)"
    using assms by (simp add: show_result_def Let_def)
next
  assume "float_is_finite score"
  then obtain b m e where "score = PyFinite b m e"
    by (cases score) (simp_all add: float_is_finite_def)
  then show "formatted_to 4 (float_value score) (format_f 4 score)"
    using format_f_formatted [of 4 b m e] by simp
next
  assume "float_is_finite (float_mul pct (PyFinite False 100 0))"
  then obtain b m e where "float_mul pct (PyFinite False 100 0) = PyFinite b m e"
    by (cases "float_mul pct (PyFinite False 100 0)") (simp_all add: float_is_finite_def)
  then show "formatted_to 2 (float_value (float_mul pct (PyFinite False 100 0)))
      (format_f 2 (float_mul pct (PyFinite False 100 0)))"
    using format_f_formatted [of 2 b m e] by simp
qed

theorem success_label_format_witness:
  "epss_score_label (snd (show_result (\<lambda>t. None) exact_ops score_example one_selected)) =
     ''EPSS Score: 0.1234    Percentile: 50.00'' \<and>
   formatted_to 4 (float_value (PyFinite False 8891907104280307 (- 56))) ''0.1234'' \<and>
   formatted_to 2 (float_value (PyFinite False 100 (- 1))) ''50.00'' \<and>
   \<bar>float_value (PyFinite False 8891907104280307 (- 56)) - 1234 / 10000\<bar> \<le> 1 / 2 ^ 57 \<and>
   float_value (PyFinite False 100 (- 1)) = 50"
proof -
  have r1: "read_field (\<lambda>t. None) score_example ''epss'' =
      Inr (PyFinite False 8891907104280307 (- 56))"
    by (simp add: score_example_def read_field_def getitem_str_def getitem_0_def py_float_def)
  have r2: "read_field (\<lambda>t. None) score_example ''percentile'' = Inr (PyFinite False 1 (- 1))"
    by (simp add: score_example_def read_field_def getitem_str_def getitem_0_def py_float_def)
  have bl: "bit_length 100 = 7"
    by code_simp
  have m: "float_mul (PyFinite False 1 (- 1)) (PyFinite False 100 0) = PyFinite False 100 (- 1)"
    by (simp add: float_round_def bl Let_def)
  have d0: "decimal 0 = ''0''" and d1234: "decimal 1234 = ''1234''"
    and d50: "decimal 50 = ''50''"
    by code_simp+
  have q1: "scaled_round 4 8891907104280307 (- 56) = 1234"
    by (simp add: scaled_round_def round_shift_def Let_def)
  have q2: "scaled_round 2 100 (- 1) = 5000"
    by (simp add: scaled_round_def round_shift_def Let_def)
  have f1: "format_f 4 (PyFinite False 8891907104280307 (- 56)) = ''0.1234''"
    by (simp add: format_f_def q1 d0 d1234 zfill_def)
  have f2: "format_f 2 (PyFinite False 100 (- 1)) = ''50.00''"
    by (simp add: format_f_def q2 d0 d50 zfill_def)
  have v1: "\<bar>float_value (PyFinite False 8891907104280307 (- 56)) - 1234 / 10000\<bar> \<le> 1 / 2 ^ 57"
    by (simp add: float_value_def pow2_def)
  have v2: "float_value (PyFinite False 100 (- 1)) = 50"
    by (simp add: float_value_def pow2_def)
  show ?thesis
    using success_label_format [OF r1 r2, where s = one_selected and ops = exact_ops] m f1 f2 v1 v2
    by (simp add: float_is_finite_def)
qed

end
